theory Spec2Isabelle
  imports Main "HOL-Library.AList"
begin


section \<open>JavaScript values\<close>

text \<open>
  The server keeps device state as dynamically typed JSON documents. A value is
  \<open>undefined\<close>, \<open>null\<close>, a boolean, a number, a string, an array, a plain object or
  a function; the modelled code meets a function only as a method that a plain
  object inherits from \<open>Object.prototype\<close>. Numbers are integers here: every number
  the modelled code inspects is an epoch timestamp, a revision or a small flag. A
  plain object is the association list of its own properties in insertion order, as
  \<open>JSON.parse\<close> and an object literal build it, with \<open>Object.prototype\<close> as its
  prototype. A prototype that an assignment to \<open>__proto__\<close> replaces is not
  represented: \<open>Object.keys\<close> and \<open>JSON.stringify\<close> see own properties only.
\<close>

datatype jsval =
    JUndefined
  | JNull
  | JBool bool
  | JNum int
  | JStr string
  | JArr "jsval list"
  | JObj "(string \<times> jsval) list"
  | JFunction

type_synonym js_record = "(string \<times> jsval) list"

text \<open>
  The value of the own property \<open>key\<close>, or \<open>undefined\<close>. This is \<open>rec[key]\<close> whenever
  \<open>key\<close> is an own property or is not a property of \<open>Object.prototype\<close>.
\<close>

definition own_prop :: "js_record \<Rightarrow> string \<Rightarrow> jsval" where
  "own_prop rec key = (case map_of rec key of None \<Rightarrow> JUndefined | Some v \<Rightarrow> v)"

text \<open>\<open>key in rec\<close>.\<close>

definition has_prop :: "js_record \<Rightarrow> string \<Rightarrow> bool" where
  "has_prop rec key \<longleftrightarrow> key \<in> set (map fst rec)"

text \<open>\<open>rec[key] = v\<close>: an existing property keeps its place, a new one goes last.\<close>

definition set_prop :: "string \<Rightarrow> jsval \<Rightarrow> js_record \<Rightarrow> js_record" where
  "set_prop key v rec = AList.update key v rec"

text \<open>The object spread \<open>{...a, ...b}\<close>.\<close>

definition spread :: "js_record \<Rightarrow> js_record \<Rightarrow> js_record" where
  "spread a b = fold (\<lambda>(key, v) result. set_prop key v result) b a"

text \<open>
  \<open>isObject\<close> is the local helper of \<open>mergeValues\<close>:
  \<open>val !== null && typeof val === "object" && !Array.isArray(val)\<close>.
\<close>

fun isObject :: "jsval \<Rightarrow> bool" where
  "isObject (JObj kvs) = True"
| "isObject v = False"

fun get_prop :: "jsval \<Rightarrow> string \<Rightarrow> jsval" where
  "get_prop (JObj kvs) key = own_prop kvs key"
| "get_prop v key = JUndefined"

fun object_keys :: "jsval \<Rightarrow> string list" where
  "object_keys (JObj kvs) = map fst kvs"
| "object_keys v = []"

text \<open>
  \<open>JSON.parse(JSON.stringify(v))\<close>, which is what a value goes through between an
  upsert and the next read of the row: a property holding \<open>undefined\<close> or a function
  is dropped, such an array element becomes \<open>null\<close>, and a bare \<open>undefined\<close> or
  function is bound as SQL NULL and parses back as \<open>null\<close>.
\<close>

fun json_roundtrip :: "jsval \<Rightarrow> jsval" where
  "json_roundtrip JUndefined = JNull"
| "json_roundtrip JFunction = JNull"
| "json_roundtrip (JArr xs) = JArr (map json_roundtrip xs)"
| "json_roundtrip (JObj kvs) =
     JObj (map (\<lambda>(k, v). (k, json_roundtrip v))
             (filter (\<lambda>(k, v). v \<noteq> JUndefined \<and> v \<noteq> JFunction) kvs))"
| "json_roundtrip v = v"

text \<open>A JSON-shaped value has no \<open>undefined\<close> and no function anywhere inside.\<close>

fun json_shaped :: "jsval \<Rightarrow> bool" where
  "json_shaped JUndefined = False"
| "json_shaped JFunction = False"
| "json_shaped (JArr xs) = list_all json_shaped xs"
| "json_shaped (JObj kvs) = list_all (\<lambda>(k, v). json_shaped v) kvs"
| "json_shaped v = True"

text \<open>\<open>a ?? b\<close>.\<close>

definition nullish :: "jsval \<Rightarrow> jsval \<Rightarrow> jsval" where
  "nullish a b = (if a = JUndefined \<or> a = JNull then b else a)"


section \<open>Deep merge\<close>

lemma size_map_of:
  "map_of kvs key = Some v \<Longrightarrow> size v < Suc (size_list (size_prod (\<lambda>x. 0) size) kvs)"
  by (induction kvs) (auto split: if_splits)

lemma size_get_prop:
  "key \<in> set (map fst kvs) \<Longrightarrow> size (get_prop (JObj kvs) key) < size (JObj kvs)"
  by (cases "map_of kvs key") (auto simp: own_prop_def map_of_eq_None_iff dest: size_map_of)

text \<open>
  The properties every plain object inherits from \<open>Object.prototype\<close>. All but
  \<open>__proto__\<close> are methods; \<open>__proto__\<close> is an accessor, whose getter returns the
  prototype and whose setter replaces it.
\<close>

definition object_prototype_methods :: "string list" where
  "object_prototype_methods =
     [''constructor'', ''__defineGetter__'', ''__defineSetter__'', ''hasOwnProperty'',
      ''__lookupGetter__'', ''__lookupSetter__'', ''isPrototypeOf'', ''propertyIsEnumerable'',
      ''toString'', ''valueOf'', ''toLocaleString'']"

text \<open>
  \<open>current[key]\<close> on a plain object, for a key other than an inherited \<open>__proto__\<close>:
  the own property, else the inherited method, else \<open>undefined\<close>.
\<close>

definition read_prop :: "js_record \<Rightarrow> string \<Rightarrow> jsval" where
  "read_prop rec key =
     (if has_prop rec key then own_prop rec key
      else if key \<in> set object_prototype_methods then JFunction
      else JUndefined)"

text \<open>
  \<open>SQLite3Service.mergeValues\<close>, on values as \<open>JSON.parse\<close> builds them. The result
  starts as a copy of \<open>current\<close>; the loop over \<open>Object.keys(incoming)\<close> then assigns
  to each of those keys the merge of the two sides' values at that key. For the key
  \<open>__proto__\<close>, when the result has no own property of that name, \<open>current[key]\<close>
  is \<open>Object.prototype\<close> and the assignment runs the inherited setter: it replaces
  the prototype of the result, or does nothing, and creates no own property, so the
  own properties of the result stay as they are.
\<close>

function (sequential) mergeValues :: "jsval \<Rightarrow> jsval \<Rightarrow> jsval" where
  "mergeValues current JUndefined = current"
| "mergeValues JUndefined incoming = incoming"
| "mergeValues (JObj c) (JObj i) =
     JObj (fold (\<lambda>key result.
                   if key = ''__proto__'' \<and> \<not> has_prop result key then result
                   else set_prop key (mergeValues (read_prop c key) (own_prop i key)) result)
                (map fst i) c)"
| "mergeValues current incoming = incoming"
  by pat_completeness auto
termination
  apply (relation "measure (\<lambda>(current, incoming). size incoming)")
   apply simp
  subgoal for c i key
    using size_get_prop[of key i] by simp
  done


section \<open>Fan timer preservation\<close>

text \<open>\<open>isExplicitlyTurningOffFan\<close> of fanTimer.ts.\<close>

definition isExplicitlyTurningOffFan :: "js_record \<Rightarrow> bool" where
  "isExplicitlyTurningOffFan incomingValue =
     (if has_prop incomingValue ''fan_timer_timeout''
         \<and> own_prop incomingValue ''fan_timer_timeout'' = JNum 0 then True
      else if has_prop incomingValue ''fan_control_state''
         \<and> own_prop incomingValue ''fan_control_state'' = JBool False then True
      else False)"

text \<open>
  \<open>shouldPreserveFanTimer\<close>. The clock \<open>Date.now()\<close> is the parameter \<open>now\<close>, in
  milliseconds; \<open>Math.floor(now / 1000)\<close> is \<open>now div 1000\<close>.
\<close>

definition shouldPreserveFanTimer :: "int \<Rightarrow> js_record \<Rightarrow> js_record \<Rightarrow> bool" where
  "shouldPreserveFanTimer now existingValue incomingValue =
     (if isExplicitlyTurningOffFan incomingValue then False
      else (case own_prop existingValue ''fan_timer_timeout'' of
              JNum fanTimerTimeout \<Rightarrow>
                (let nowSeconds = now div 1000
                 in fanTimerTimeout > nowSeconds \<and> fanTimerTimeout \<noteq> 0)
            | _ \<Rightarrow> False))"

text \<open>
  \<open>extractFanTimerState\<close>: an object literal with five properties, each of which may
  hold \<open>undefined\<close>.
\<close>

definition extractFanTimerState :: "js_record \<Rightarrow> js_record" where
  "extractFanTimerState v =
     [(''fan_timer_timeout'', own_prop v ''fan_timer_timeout''),
      (''fan_control_state'', own_prop v ''fan_control_state''),
      (''fan_timer_duration'', own_prop v ''fan_timer_duration''),
      (''fan_current_speed'', own_prop v ''fan_current_speed''),
      (''fan_mode'', own_prop v ''fan_mode'')]"

definition preserveFanTimer :: "int \<Rightarrow> js_record \<Rightarrow> js_record \<Rightarrow> js_record" where
  "preserveFanTimer now mergedValue existingValue =
     (if \<not> shouldPreserveFanTimer now existingValue mergedValue then mergedValue
      else (let fanTimerState = extractFanTimerState existingValue
            in spread mergedValue fanTimerState))"

definition fan_timer_keys :: "string set" where
  "fan_timer_keys =
     {''fan_timer_timeout'', ''fan_control_state'', ''fan_timer_duration'',
      ''fan_current_speed'', ''fan_mode''}"


section \<open>The object store\<close>

text \<open>
  The tables of SQLite3Service that the modelled operations touch. A table is the list
  of its rows in insertion order; none of the tables has a key constraint. The column
  \<open>value\<close> of \<open>states\<close> holds JSON text, written by \<open>JSON.stringify\<close> and read by
  \<open>JSON.parse\<close>: a row carries the value that text parses to. Statements run in the
  order in which the code issues them.
\<close>

record state_row =
  row_serial :: string
  row_object_key :: string
  row_object_revision :: int
  row_object_timestamp :: int
  row_value :: jsval
  row_updatedAt :: int

record owner_row =
  owner_userId :: string
  owner_serial :: string
  owner_createdAt :: int

record share_row =
  share_ownerId :: string
  share_sharedWithUserId :: string
  share_serial :: string
  share_permissions :: "string list"
  share_createdAt :: int

record database =
  states :: "state_row list"
  deviceOwners :: "owner_row list"
  deviceShares :: "share_row list"

text \<open>
  What \<open>getState\<close> resolves to. Its query selects neither \<open>serial\<close> nor \<open>updatedAt\<close>,
  so those two properties of the returned object are \<open>undefined\<close> and are left out.
\<close>

record DeviceObject =
  object_key :: string
  object_revision :: int
  object_timestamp :: int
  object_value :: jsval

text \<open>
  \<open>getDb()\<close> yields the open database or \<open>null\<close>; every operation takes that result
  as a \<open>database option\<close> and returns early on \<open>None\<close>.
\<close>

definition getState :: "database option \<Rightarrow> string \<Rightarrow> string \<Rightarrow> DeviceObject option" where
  "getState dbo serial objectKey =
     (case dbo of
        None \<Rightarrow> None
      | Some db \<Rightarrow>
          (case find (\<lambda>r. row_serial r = serial \<and> row_object_key r = objectKey) (states db) of
             Some row \<Rightarrow>
               Some \<lparr>object_key = row_object_key row,
                     object_revision = row_object_revision row,
                     object_timestamp = row_object_timestamp row,
                     object_value = row_value row\<rparr>
           | None \<Rightarrow> None))"

text \<open>
  \<open>upsertState\<close>, with \<open>Date.now()\<close> as the parameter \<open>now\<close>. The UPDATE statement
  rewrites every row of the serial and key; the INSERT statement adds one row.
\<close>

definition upsertState ::
  "int \<Rightarrow> database option \<Rightarrow> string \<Rightarrow> string \<Rightarrow> int \<Rightarrow> int \<Rightarrow> jsval \<Rightarrow> database option" where
  "upsertState now dbo serial objectKey revision timestamp v =
     (case dbo of
        None \<Rightarrow> None
      | Some db \<Rightarrow>
          (case getState (Some db) serial objectKey of
             Some currentState \<Rightarrow>
               (let mergedValue = mergeValues (nullish (object_value currentState) (JObj []))
                                              (nullish v (JObj []))
                in Some (db\<lparr>states :=
                     map (\<lambda>r. if row_serial r = serial \<and> row_object_key r = objectKey
                               then r\<lparr>row_object_revision := revision,
                                      row_object_timestamp := timestamp,
                                      row_value := json_roundtrip mergedValue,
                                      row_updatedAt := now\<rparr>
                               else r)
                         (states db)\<rparr>))
           | None \<Rightarrow>
               Some (db\<lparr>states := states db @
                     [\<lparr>row_serial = serial, row_object_key = objectKey,
                       row_object_revision = revision, row_object_timestamp = timestamp,
                       row_value = json_roundtrip v, row_updatedAt = now\<rparr>]\<rparr>)))"

definition empty_database :: database where
  "empty_database = \<lparr>states = [], deviceOwners = [], deviceShares = []\<rparr>"


section \<open>The availability watchdog\<close>

text \<open>
  \<open>DeviceAvailabilityWatchdog\<close>. The map \<open>deviceStates\<close> is an association list in
  insertion order. The registered callback is known only by whether there is one;
  \<open>handler_calls\<close> records the calls it has received, oldest first. An exception inside
  the callback is caught by \<open>notifyAvailabilityChange\<close> and leaves the watchdog as it
  is. The clock \<open>Date.now()\<close> is the parameter \<open>now\<close> of each operation.
\<close>

record DeviceAvailabilityState =
  lastSeen :: int
  isAvailable :: bool

record watchdog =
  deviceStates :: "(string \<times> DeviceAvailabilityState) list"
  onAvailabilityChange :: bool
  handler_calls :: "(string \<times> bool) list"

text \<open>
  The source has two variants of the class. The one with a subscription manager
  declares a timeout of 300000 ms and a sweep interval of 30000 ms; the plain one,
  whose sweep only checks timeouts, declares 125000 ms and 10000 ms.
\<close>

definition TIMEOUT_MS :: int where
  "TIMEOUT_MS = 300000"

definition CHECK_INTERVAL_MS :: int where
  "CHECK_INTERVAL_MS = 30000"

definition plain_TIMEOUT_MS :: int where
  "plain_TIMEOUT_MS = 125000"

definition plain_CHECK_INTERVAL_MS :: int where
  "plain_CHECK_INTERVAL_MS = 10000"

definition new_watchdog :: watchdog where
  "new_watchdog = \<lparr>deviceStates = [], onAvailabilityChange = False, handler_calls = []\<rparr>"


definition notifyAvailabilityChange :: "string \<Rightarrow> bool \<Rightarrow> watchdog \<Rightarrow> watchdog" where
  "notifyAvailabilityChange serial available w =
     (if onAvailabilityChange w
      then w\<lparr>handler_calls := handler_calls w @ [(serial, available)]\<rparr>
      else w)"

definition markSeen :: "int \<Rightarrow> string \<Rightarrow> watchdog \<Rightarrow> watchdog" where
  "markSeen now serial w =
     (case map_of (deviceStates w) serial of
        None \<Rightarrow>
          notifyAvailabilityChange serial True
            (w\<lparr>deviceStates :=
                 AList.update serial \<lparr>lastSeen = now, isAvailable = True\<rparr> (deviceStates w)\<rparr>)
      | Some existingState \<Rightarrow>
          (let wasAvailable = isAvailable existingState;
               seen = existingState\<lparr>lastSeen := now\<rparr>
           in if \<not> wasAvailable
              then notifyAvailabilityChange serial True
                     (w\<lparr>deviceStates :=
                          AList.update serial (seen\<lparr>isAvailable := True\<rparr>) (deviceStates w)\<rparr>)
              else w\<lparr>deviceStates := AList.update serial seen (deviceStates w)\<rparr>))"

text \<open>
  The body of the first loop of \<open>checkDeviceTimeouts\<close>, run for every serial with an
  active subscription.
\<close>

definition refreshActive :: "int \<Rightarrow> string \<Rightarrow> watchdog \<Rightarrow> watchdog" where
  "refreshActive now serial w =
     (case map_of (deviceStates w) serial of
        Some state \<Rightarrow>
          (let seen = state\<lparr>lastSeen := now\<rparr>
           in if \<not> isAvailable state
              then notifyAvailabilityChange serial True
                     (w\<lparr>deviceStates :=
                          AList.update serial (seen\<lparr>isAvailable := True\<rparr>) (deviceStates w)\<rparr>)
              else w\<lparr>deviceStates := AList.update serial seen (deviceStates w)\<rparr>)
      | None \<Rightarrow>
          notifyAvailabilityChange serial True
            (w\<lparr>deviceStates :=
                 AList.update serial \<lparr>lastSeen = now, isAvailable = True\<rparr> (deviceStates w)\<rparr>))"

text \<open>The body of the timeout loop, run for every entry of \<open>deviceStates\<close>.\<close>

definition timeoutDevice :: "int \<Rightarrow> int \<Rightarrow> string \<Rightarrow> watchdog \<Rightarrow> watchdog" where
  "timeoutDevice timeout now serial w =
     (case map_of (deviceStates w) serial of
        None \<Rightarrow> w
      | Some state \<Rightarrow>
          (if \<not> isAvailable state then w
           else (let timeSinceLastSeen = now - lastSeen state
                 in if timeSinceLastSeen > timeout
                    then notifyAvailabilityChange serial False
                           (w\<lparr>deviceStates :=
                                AList.update serial (state\<lparr>isAvailable := False\<rparr>) (deviceStates w)\<rparr>)
                    else w)))"

text \<open>
  \<open>checkDeviceTimeouts\<close>. The argument is \<open>None\<close> when no subscription manager is
  attached, and otherwise the serials \<open>getActiveSerials()\<close> returns.
\<close>

definition checkDeviceTimeouts :: "int \<Rightarrow> string list option \<Rightarrow> watchdog \<Rightarrow> watchdog" where
  "checkDeviceTimeouts now subscriptionManager w =
     (let w1 = (case subscriptionManager of
                  None \<Rightarrow> w
                | Some activeSerials \<Rightarrow> fold (refreshActive now) activeSerials w)
      in fold (timeoutDevice TIMEOUT_MS now) (map fst (deviceStates w1)) w1)"

definition plain_checkDeviceTimeouts :: "int \<Rightarrow> watchdog \<Rightarrow> watchdog" where
  "plain_checkDeviceTimeouts now w =
     fold (timeoutDevice plain_TIMEOUT_MS now) (map fst (deviceStates w)) w"

definition getAvailability :: "watchdog \<Rightarrow> string \<Rightarrow> bool" where
  "getAvailability w serial =
     (case map_of (deviceStates w) serial of Some state \<Rightarrow> isAvailable state | None \<Rightarrow> False)"

text \<open>
  A run of the watchdog is a list of timestamped events: calls of \<open>markSeen\<close> and
  sweeps of the periodic timer.
\<close>

datatype watchdog_event = MarkSeen int string | Sweep int "string list option"

fun apply_event :: "watchdog_event \<Rightarrow> watchdog \<Rightarrow> watchdog" where
  "apply_event (MarkSeen now serial) w = markSeen now serial w"
| "apply_event (Sweep now subscriptionManager) w = checkDeviceTimeouts now subscriptionManager w"

definition run_events :: "watchdog_event list \<Rightarrow> watchdog \<Rightarrow> watchdog" where
  "run_events evs w = fold apply_event evs w"

definition is_active :: "string \<Rightarrow> string list option \<Rightarrow> bool" where
  "is_active s subscriptionManager =
     (case subscriptionManager of None \<Rightarrow> False | Some activeSerials \<Rightarrow> s \<in> set activeSerials)"



definition active_list :: "string list option \<Rightarrow> string list" where
  "active_list sm = (case sm of None \<Rightarrow> [] | Some activeSerials \<Rightarrow> activeSerials)"


section \<open>Ownership, shares and API keys\<close>

text \<open>
  A database call that never invokes \<open>resolve\<close> leaves its promise pending for ever,
  and the caller that awaits it never returns: \<open>Never\<close>.
\<close>

datatype 'a promise = Resolved 'a | Never

definition getDeviceOwner :: "database option \<Rightarrow> string \<Rightarrow> owner_row option" where
  "getDeviceOwner dbo serial =
     (case dbo of
        None \<Rightarrow> None
      | Some db \<Rightarrow> find (\<lambda>r. owner_serial r = serial) (deviceOwners db))"

text \<open>
  \<open>getDeviceSharedWithMe\<close> resolves only when the query finds a row; the
  \<open>return null\<close> after the promise is unreachable.
\<close>

record SharedDevice =
  shared_serial :: string
  shared_permissions :: "string list"

definition getDeviceSharedWithMe ::
  "database option \<Rightarrow> string \<Rightarrow> string \<Rightarrow> SharedDevice option promise" where
  "getDeviceSharedWithMe dbo userId serial =
     (case dbo of
        None \<Rightarrow> Resolved None
      | Some db \<Rightarrow>
          (case find (\<lambda>r. share_serial r = serial \<and> share_sharedWithUserId r = userId)
                  (deviceShares db) of
             Some row \<Rightarrow>
               Resolved (Some \<lparr>shared_serial = share_serial row,
                                shared_permissions = share_permissions row\<rparr>)
           | None \<Rightarrow> Never))"

text \<open>\<open>checkApiKeyPermission\<close>, with the \<open>permissions\<close> argument as a record.\<close>

record APIKeyPermissions =
  perm_serials :: "string list"
  perm_scopes :: "string list"

definition checkApiKeyPermission ::
  "database option \<Rightarrow> string \<Rightarrow> string \<Rightarrow> string list \<Rightarrow> APIKeyPermissions \<Rightarrow> bool promise" where
  "checkApiKeyPermission dbo userId serial requiredScopes permissions =
     (case dbo of
        None \<Rightarrow> Resolved False
      | Some db \<Rightarrow>
          if length (perm_serials permissions) > 0 \<and> serial \<in> set (perm_serials permissions)
          then Resolved False
          else
            (let ownership = getDeviceOwner dbo serial
             in if (case ownership of Some row \<Rightarrow> owner_userId row = userId | None \<Rightarrow> False)
                then Resolved (list_all (\<lambda>scope. scope \<in> set (perm_scopes permissions))
                                 requiredScopes)
                else
                  (case getDeviceSharedWithMe dbo userId serial of
                     Never \<Rightarrow> Never
                   | Resolved None \<Rightarrow> Resolved False
                   | Resolved (Some sharedDevice) \<Rightarrow>
                       (let hasSharePermissions =
                              list_all (\<lambda>scope.
                                  if scope = ''read'' then True
                                  else if scope = ''write'' \<or> scope = ''control''
                                  then ''control'' \<in> set (shared_permissions sharedDevice)
                                  else False) requiredScopes;
                            hasKeyScope =
                              list_all (\<lambda>scope. scope \<in> set (perm_scopes permissions))
                                 requiredScopes
                        in Resolved (hasSharePermissions \<and> hasKeyScope)))))"


section \<open>The away reconciler\<close>

text \<open>
  \<open>getAllStateForDevice\<close> resolves to a \<open>DeviceStateStore\<close>: an object keyed by
  serial whose values are objects keyed by object key, each holding the columns of
  one row. \<open>store_row\<close> is the body of its loop over the rows.
\<close>

record StoreEntry =
  entry_object_key :: string
  entry_object_revision :: int
  entry_object_timestamp :: int
  entry_value :: jsval
  entry_updatedAt :: int

type_synonym DeviceStateStore = "(string \<times> (string \<times> StoreEntry) list) list"

definition store_row :: "state_row \<Rightarrow> DeviceStateStore \<Rightarrow> DeviceStateStore" where
  "store_row row deviceState =
     (let bucket = (case map_of deviceState (row_serial row) of Some b \<Rightarrow> b | None \<Rightarrow> [])
      in AList.update (row_serial row)
           (AList.update (row_object_key row)
              \<lparr>entry_object_key = row_object_key row,
                entry_object_revision = row_object_revision row,
                entry_object_timestamp = row_object_timestamp row,
                entry_value = row_value row,
                entry_updatedAt = row_updatedAt row\<rparr>
              bucket)
           deviceState)"

definition getAllStateForDevice :: "database option \<Rightarrow> string \<Rightarrow> string \<Rightarrow> DeviceStateStore" where
  "getAllStateForDevice dbo serial objectKey =
     (case dbo of
        None \<Rightarrow> []
      | Some db \<Rightarrow>
          fold store_row
            (filter (\<lambda>r. row_serial r = serial \<and> row_object_key r = objectKey) (states db))
            [])"

text \<open>\<open>userId.replace(/^user_/, "")\<close>.\<close>

definition stripUserPrefix :: "string \<Rightarrow> string" where
  "stripUserPrefix userId = (if take 5 userId = ''user_'' then drop 5 userId else userId)"

definition getOwnerDevices :: "database option \<Rightarrow> string \<Rightarrow> owner_row list option" where
  "getOwnerDevices dbo userId =
     (case dbo of
        None \<Rightarrow> None
      | Some db \<Rightarrow>
          Some (filter (\<lambda>r. owner_userId r = stripUserPrefix userId) (deviceOwners db)))"

text \<open>
  \<open>updateUserAwayStatus\<close> applies \<open>Boolean\<close>, \<open>Number\<close> and \<open>String\<close> to properties of
  a \<open>DeviceStateStore\<close> and of its buckets. Such a property is \<open>undefined\<close> or an
  object: \<open>Boolean\<close> is false on the first and true on the second, \<open>Number\<close> is NaN
  on both, so that \<open>Number(v) || 0\<close> is 0, and \<open>String\<close> gives the two texts below.
\<close>

definition js_Boolean :: "'a option \<Rightarrow> bool" where
  "js_Boolean v = (case v of None \<Rightarrow> False | Some obj \<Rightarrow> True)"

definition js_Number_or_0 :: "'a option \<Rightarrow> int" where
  "js_Number_or_0 v = (case v of None \<Rightarrow> 0 | Some obj \<Rightarrow> 0)"

definition js_String :: "'a option \<Rightarrow> string" where
  "js_String v = (case v of None \<Rightarrow> ''undefined'' | Some obj \<Rightarrow> ''[object Object]'')"

text \<open>A bucket read as a plain JavaScript object, for the spread into the new value.\<close>

definition entry_as_jsval :: "StoreEntry \<Rightarrow> jsval" where
  "entry_as_jsval e =
     JObj [(''object_key'', JStr (entry_object_key e)),
           (''object_revision'', JNum (entry_object_revision e)),
           (''object_timestamp'', JNum (entry_object_timestamp e)),
           (''value'', entry_value e),
           (''updatedAt'', JNum (entry_updatedAt e))]"

definition bucket_as_record :: "(string \<times> StoreEntry) list \<Rightarrow> js_record" where
  "bucket_as_record bucket = map (\<lambda>(k, e). (k, entry_as_jsval e)) bucket"

text \<open>The local variables of the first loop of \<open>updateUserAwayStatus\<close>.\<close>

record away_scan =
  allAway :: bool
  anyDeviceReported :: bool
  mostRecentAwayTimestamp :: int
  mostRecentAwaySetter :: "string option"
  hasVacationMode :: bool
  mostRecentManualAwayTimestamp :: int

definition initial_scan :: away_scan where
  "initial_scan =
     \<lparr>allAway = True, anyDeviceReported = False, mostRecentAwayTimestamp = 0,
      mostRecentAwaySetter = None, hasVacationMode = False,
      mostRecentManualAwayTimestamp = 0\<rparr>"

text \<open>
  The first loop: for each owned device it reads \<open>device.SERIAL\<close> through
  \<open>getAllStateForDevice\<close> and looks at \<open>deviceState.value\<close>, the property named
  \<open>value\<close> of the store. The loop ends at the first device that is not away.
\<close>

fun scanOwnedDevices :: "database option \<Rightarrow> owner_row list \<Rightarrow> away_scan \<Rightarrow> away_scan" where
  "scanOwnedDevices dbo [] sc = sc"
| "scanOwnedDevices dbo (deviceOwner # rest) sc =
     (let deviceKey = ''device.'' @ owner_serial deviceOwner;
          deviceState = getAllStateForDevice dbo (owner_serial deviceOwner) deviceKey
      in case map_of deviceState ''value'' of
           None \<Rightarrow> scanOwnedDevices dbo rest sc
         | Some v \<Rightarrow>
             (let away = js_Boolean (map_of v ''away'');
                  awayTimestamp = js_Number_or_0 (map_of v ''away_timestamp'');
                  awaySetter = js_String (map_of v ''away_setter'');
                  vacationMode = js_Boolean (map_of v ''vacation_mode'');
                  manualAwayTimestamp = js_Number_or_0 (map_of v ''manual_away_timestamp'');
                  sc1 = sc\<lparr>anyDeviceReported := True\<rparr>;
                  sc2 = (if vacationMode then sc1\<lparr>hasVacationMode := True\<rparr> else sc1);
                  sc3 = (if awayTimestamp > mostRecentAwayTimestamp sc2
                         then sc2\<lparr>mostRecentAwayTimestamp := awayTimestamp\<rparr> else sc2);
                  sc4 = (if manualAwayTimestamp > mostRecentManualAwayTimestamp sc3
                         then sc3\<lparr>mostRecentManualAwayTimestamp := manualAwayTimestamp,
                                  mostRecentAwaySetter := Some awaySetter\<rparr>
                         else sc3)
              in if \<not> away then sc4\<lparr>allAway := False\<rparr>
                 else scanOwnedDevices dbo rest sc4))"

text \<open>
  The second loop: for each owned device it reads \<open>user.USERID\<close> through
  \<open>getAllStateForDevice\<close>, builds the updated value and upserts it. The store object
  is always truthy, so the guard \<open>if (existingUserState)\<close> always passes.
\<close>

fun writeUserState ::
  "int \<Rightarrow> string \<Rightarrow> away_scan \<Rightarrow> bool \<Rightarrow> owner_row list \<Rightarrow> database option \<Rightarrow> database option" where
  "writeUserState nowMs userId sc userAway [] dbo = dbo"
| "writeUserState nowMs userId sc userAway (deviceOwner # rest) dbo =
     (let userStateKey = ''user.'' @ userId;
          existingUserState = getAllStateForDevice dbo (owner_serial deviceOwner) userStateKey;
          currentValue = (case map_of existingUserState ''value'' of
                            Some bucket \<Rightarrow> bucket_as_record bucket | None \<Rightarrow> []);
          v0 = set_prop ''vacation_mode'' (JBool (hasVacationMode sc))
                 (set_prop ''away'' (JBool userAway) (spread [] currentValue));
          v1 = (if mostRecentAwayTimestamp sc > 0
                then set_prop ''away_timestamp'' (JNum (mostRecentAwayTimestamp sc)) v0 else v0);
          v2 = (case mostRecentAwaySetter sc of
                  Some setter \<Rightarrow> set_prop ''away_setter'' (JStr setter) v1 | None \<Rightarrow> v1);
          updatedValue =
               (if mostRecentManualAwayTimestamp sc > 0
                then set_prop ''manual_away_timestamp'' (JNum (mostRecentManualAwayTimestamp sc)) v2
                else v2);
          revision = js_Number_or_0 (map_of existingUserState ''object_revision'') + 1
      in writeUserState nowMs userId sc userAway rest
           (upsertState nowMs dbo (owner_serial deviceOwner) userStateKey revision nowMs
              (JObj updatedValue)))"

text \<open>\<open>updateUserAwayStatus\<close>, as the store it leaves behind.\<close>

definition updateUserAwayStatus :: "int \<Rightarrow> database option \<Rightarrow> string \<Rightarrow> database option" where
  "updateUserAwayStatus nowMs dbo userId0 =
     (case dbo of
        None \<Rightarrow> None
      | Some db \<Rightarrow>
          (let userId = stripUserPrefix userId0
           in case getOwnerDevices dbo userId of
                None \<Rightarrow> dbo
              | Some ownedDevices \<Rightarrow>
                  if length ownedDevices = 0 then dbo
                  else (let sc = scanOwnedDevices dbo ownedDevices initial_scan;
                            userAway = (if anyDeviceReported sc then allAway sc else False)
                        in writeUserState nowMs userId sc userAway ownedDevices dbo)))"

text \<open>Every bucket of a store has at most the one object key \<open>key\<close>.\<close>

definition single_key :: "string \<Rightarrow> DeviceStateStore \<Rightarrow> bool" where
  "single_key key ds \<longleftrightarrow> (\<forall>s b k e. (s, b) \<in> set ds \<longrightarrow> (k, e) \<in> set b \<longrightarrow> k = key)"


section \<open>MQTT command ingestion\<close>

text \<open>
  Strings of topics and payloads. \<open>startsWith\<close>, \<open>endsWith\<close> and \<open>str_includes\<close> are
  the JavaScript string methods \<open>startsWith\<close>, \<open>endsWith\<close> and \<open>includes\<close>;
  \<open>js_trim\<close> is \<open>trim\<close> on ASCII white space.
\<close>

definition startsWith :: "string \<Rightarrow> string \<Rightarrow> bool" where
  "startsWith s p \<longleftrightarrow> take (length p) s = p"

definition endsWith :: "string \<Rightarrow> string \<Rightarrow> bool" where
  "endsWith s p \<longleftrightarrow> length p \<le> length s \<and> drop (length s - length p) s = p"

fun str_includes :: "string \<Rightarrow> string \<Rightarrow> bool" where
  "str_includes [] p = (p = [])"
| "str_includes (c # s) p = (startsWith (c # s) p \<or> str_includes s p)"

definition is_space :: "char \<Rightarrow> bool" where
  "is_space c \<longleftrightarrow> c \<in> {CHR '' '', CHR 0x09, CHR 0x0A, CHR 0x0B, CHR 0x0C, CHR 0x0D}"

definition js_trim :: "string \<Rightarrow> string" where
  "js_trim s = rev (dropWhile is_space (rev (dropWhile is_space s)))"

text \<open>
  The match of a topic against the regular expression of
  \<open>handleHomeAssistantCommand\<close>, which is the escaped prefix followed by
  \<^verbatim>\<open>/([^/]+)/ha/(.+)/set\<close> and anchored at both ends: the first group is the
  run of characters up to the next slash, the second everything between
  \<^verbatim>\<open>/ha/\<close> and the final \<^verbatim>\<open>/set\<close>, which must not be empty nor hold
  a line terminator.
\<close>

definition line_terminator :: "char \<Rightarrow> bool" where
  "line_terminator c \<longleftrightarrow> c = CHR 0x0A \<or> c = CHR 0x0D"

definition matchHaTopic :: "string \<Rightarrow> string \<Rightarrow> (string \<times> string) option" where
  "matchHaTopic prefix topic =
     (if \<not> startsWith topic (prefix @ ''/'') then None
      else (let rest = drop (length prefix + 1) topic;
                serial = takeWhile (\<lambda>c. c \<noteq> CHR ''/'') rest;
                after = dropWhile (\<lambda>c. c \<noteq> CHR ''/'') rest
            in if serial = [] then None
               else if \<not> startsWith after ''/ha/'' then None
               else (let tail = drop 4 after;
                         command = take (length tail - 4) tail
                     in if endsWith tail ''/set'' \<and> command \<noteq> []
                           \<and> \<not> list_ex line_terminator command
                        then Some (serial, command)
                        else None)))"

text \<open>
  The fields of \<open>MqttIntegration\<close> that command handling reads: the topic prefix of
  the configuration and the set of the user's device serials, owned and shared.
\<close>

record MqttIntegration =
  topicPrefix :: string
  userDeviceSerials :: "string list"

text \<open>
  Functions the handlers call whose sources are not available, taken as parameters:
  \<open>parseCommandTopic\<close> of topicBuilder, the reading of a raw payload
  (\<open>JSON.parse\<close>, else \<open>parseFloat\<close>, else the text itself), \<open>haModeToNest\<close> of
  helpers, and \<open>validateTemperature\<close> applied to \<open>parseFloat\<close> of the payload, where
  \<open>None\<close> stands for an exception.
\<close>

record mqtt_helpers =
  parseCommandTopic :: "string \<Rightarrow> string \<Rightarrow> (string \<times> string \<times> string) option"
  parsePayload :: "string \<Rightarrow> jsval"
  haModeToNest :: "string \<Rightarrow> jsval"
  validateTemperature :: "string \<Rightarrow> jsval \<Rightarrow> jsval option"

text \<open>
  A handler's effect is the list of calls it makes to \<open>deviceState.upsert\<close>, in
  order, each with serial, object key, revision, timestamp and value.
\<close>

datatype upsert_call = Upsert string string int int jsval

text \<open>
  The spread \<open>{...currentObj.value}\<close> of a stored value: the properties of an object,
  and nothing for null, a boolean or a number. Stored device and shared values are
  objects; the indices an array or a string would contribute are left out.
\<close>

fun as_record :: "jsval \<Rightarrow> js_record" where
  "as_record (JObj kvs) = kvs"
| "as_record v = []"

definition updateSharedValue ::
  "int \<Rightarrow> string \<Rightarrow> DeviceObject \<Rightarrow> string \<Rightarrow> jsval \<Rightarrow> upsert_call list" where
  "updateSharedValue now serial currentObj field v =
     (let objectKey = ''shared.'' @ serial;
          newValue = set_prop field v (as_record (object_value currentObj));
          newRevision = object_revision currentObj + 1
      in [Upsert serial objectKey newRevision now (JObj newValue)])"

definition updateDeviceValue ::
  "int \<Rightarrow> string \<Rightarrow> DeviceObject \<Rightarrow> string \<Rightarrow> jsval \<Rightarrow> upsert_call list" where
  "updateDeviceValue now serial currentObj field v =
     (let objectKey = ''device.'' @ serial;
          newValue = set_prop field v (as_record (object_value currentObj));
          newRevision = object_revision currentObj + 1
      in [Upsert serial objectKey newRevision now (JObj newValue)])"

definition updateDeviceFields ::
  "int \<Rightarrow> string \<Rightarrow> DeviceObject \<Rightarrow> js_record \<Rightarrow> upsert_call list" where
  "updateDeviceFields now serial currentObj fieldValues =
     (let objectKey = ''device.'' @ serial;
          newValue = spread (as_record (object_value currentObj)) fieldValues;
          newRevision = object_revision currentObj + 1
      in [Upsert serial objectKey newRevision now (JObj newValue)])"

text \<open>The \<open>switch\<close> of \<open>handleHomeAssistantCommand\<close> over the command.\<close>

definition haCommand ::
  "mqtt_helpers \<Rightarrow> int \<Rightarrow> string \<Rightarrow> DeviceObject \<Rightarrow> DeviceObject \<Rightarrow> string \<Rightarrow> string
     \<Rightarrow> upsert_call list" where
  "haCommand h now serial deviceObj sharedObj command valueStr =
     (if command = ''mode'' then
        updateSharedValue now serial sharedObj ''target_temperature_type'' (haModeToNest h valueStr)
      else if command = ''target_temperature'' then
        (case validateTemperature h valueStr (object_value sharedObj) of
           None \<Rightarrow> []
         | Some tempC \<Rightarrow> updateSharedValue now serial sharedObj ''target_temperature'' tempC)
      else if command = ''target_temperature_low'' then
        (case validateTemperature h valueStr (object_value sharedObj) of
           None \<Rightarrow> []
         | Some tempLowC \<Rightarrow>
             updateSharedValue now serial sharedObj ''target_temperature_low'' tempLowC)
      else if command = ''target_temperature_high'' then
        (case validateTemperature h valueStr (object_value sharedObj) of
           None \<Rightarrow> []
         | Some tempHighC \<Rightarrow>
             updateSharedValue now serial sharedObj ''target_temperature_high'' tempHighC)
      else if command = ''fan_mode'' then
        (if valueStr = ''on'' then
           (let timeoutTimestamp = now div 1000 + 3600
            in updateDeviceFields now serial deviceObj
                 [(''fan_control_state'', JBool True), (''fan_timer_active'', JBool True),
                  (''fan_timer_timeout'', JNum timeoutTimestamp)])
         else
           updateDeviceFields now serial deviceObj
             [(''fan_control_state'', JBool False), (''fan_timer_active'', JBool False),
              (''fan_timer_timeout'', JNum 0)])
      else if command = ''preset'' then
        (if valueStr = ''away'' then
           updateDeviceValue now serial deviceObj ''auto_away'' (JNum 2)
           @ updateDeviceValue now serial deviceObj ''away'' (JBool True)
         else if valueStr = ''home'' then
           updateDeviceValue now serial deviceObj ''auto_away'' (JNum 0)
           @ updateDeviceValue now serial deviceObj ''away'' (JBool False)
         else if valueStr = ''eco'' then
           updateDeviceValue now serial deviceObj ''eco''
             (JObj [(''mode'', JStr ''manual-eco''), (''leaf'', JBool True)])
         else [])
      else [])"

text \<open>
  \<open>handleHomeAssistantCommand\<close> and \<open>handleCommand\<close>. They read the current objects
  through \<open>deviceState.get\<close>; the class DeviceStateService is not among the sources
  and its \<open>get\<close> passes through to the store, so the store's \<open>getState\<close> stands for
  it. An exception inside a handler is caught there and ends it.
\<close>

definition handleHomeAssistantCommand ::
  "mqtt_helpers \<Rightarrow> int \<Rightarrow> MqttIntegration \<Rightarrow> database option \<Rightarrow> string \<Rightarrow> string
     \<Rightarrow> upsert_call list" where
  "handleHomeAssistantCommand h now m dbo topic message =
     (let prefix = topicPrefix m;
          valueStr = js_trim message
      in case matchHaTopic prefix topic of
           None \<Rightarrow> []
         | Some (serial, command) \<Rightarrow>
             if serial \<notin> set (userDeviceSerials m) then []
             else (case getState dbo serial (''device.'' @ serial) of
                     None \<Rightarrow> []
                   | Some deviceObj \<Rightarrow>
                       (case getState dbo serial (''shared.'' @ serial) of
                          None \<Rightarrow> []
                        | Some sharedObj \<Rightarrow>
                            haCommand h now serial deviceObj sharedObj command valueStr)))"

definition handleCommand ::
  "mqtt_helpers \<Rightarrow> int \<Rightarrow> MqttIntegration \<Rightarrow> database option \<Rightarrow> string \<Rightarrow> string
     \<Rightarrow> upsert_call list" where
  "handleCommand h now m dbo topic message =
     (let prefix = topicPrefix m
      in if str_includes topic ''/ha/'' \<and> endsWith topic ''/set''
         then handleHomeAssistantCommand h now m dbo topic message
         else (case parseCommandTopic h topic prefix of
                 None \<Rightarrow> []
               | Some (serial, objectType, field) \<Rightarrow>
                   if serial \<notin> set (userDeviceSerials m) then []
                   else (let v = parsePayload h message;
                             objectKey = objectType @ ''.'' @ serial
                         in case getState dbo serial objectKey of
                              None \<Rightarrow> []
                            | Some currentObj \<Rightarrow>
                                (let newValue = set_prop field v
                                                  (as_record (object_value currentObj));
                                     newRevision = object_revision currentObj + 1
                                 in [Upsert serial objectKey newRevision now (JObj newValue)]))))"

text \<open>
  Modelled from the spec: \<open>DeviceStateService.upsert\<close>, which is not among the
  sources, calls the store's upsert and then notifies the watchdog, the subscription
  manager and the integrations, none of which writes to the store.
\<close>

fun perform_upsert :: "upsert_call \<Rightarrow> database option \<Rightarrow> database option" where
  "perform_upsert (Upsert serial objectKey revision timestamp v) dbo =
     upsertState timestamp dbo serial objectKey revision timestamp v"

definition perform_upserts :: "upsert_call list \<Rightarrow> database option \<Rightarrow> database option" where
  "perform_upserts calls dbo = fold perform_upsert calls dbo"


section \<open>Scenario data\<close>

text \<open>The concrete writes and stores of scenarios S1 and S2, used to run the operations.\<close>

definition fan_on_value :: js_record where
  "fan_on_value =
     [(''fan_timer_timeout'', JNum 9999999999), (''fan_control_state'', JBool True),
      (''fan_mode'', JStr ''on''), (''temperature'', JNum 20)]"

definition fan_on_write :: jsval where
  "fan_on_write =
     JObj [(''fan_timer_timeout'', JNum 9999999999), (''fan_control_state'', JBool True),
           (''temperature'', JNum 20)]"

definition temperature_write :: jsval where
  "temperature_write = JObj [(''temperature'', JNum 21)]"

definition stale_fan_write :: jsval where
  "stale_fan_write = JObj [(''fan_timer_timeout'', JNum 5), (''temperature'', JNum 21)]"

definition fan_on_database :: database where
  "fan_on_database =
     \<lparr>states = [\<lparr>row_serial = ''A'', row_object_key = ''device.A'', row_object_revision = 5,
                  row_object_timestamp = 1000, row_value = fan_on_write, row_updatedAt = 1000\<rparr>],
      deviceOwners = [], deviceShares = []\<rparr>"

text \<open>The store of scenario S1 once its first write, made at time 1000, is in it.\<close>

definition S1_settled :: database where
  "S1_settled =
     \<lparr>states = [\<lparr>row_serial = ''A'', row_object_key = ''device.A'', row_object_revision = 1,
                  row_object_timestamp = 1000, row_value = fan_on_write, row_updatedAt = 1000\<rparr>],
      deviceOwners = [], deviceShares = []\<rparr>"

text \<open>
  A stored value and a write whose JSON text has the key \<open>__proto__\<close>, which
  \<open>JSON.parse\<close> creates as an own property.
\<close>

definition proto_current :: jsval where
  "proto_current = JObj [(''a'', JNum 1)]"

definition proto_write :: jsval where
  "proto_write = JObj [(''__proto__'', JObj [(''x'', JNum 1)]), (''t'', JNum 2)]"






text \<open>A store in which user U owns device A.\<close>

definition owner_database :: database where
  "owner_database =
     \<lparr>states = [],
      deviceOwners = [\<lparr>owner_userId = ''U'', owner_serial = ''A'', owner_createdAt = 1\<rparr>],
      deviceShares = []\<rparr>"


text \<open>
  Scenario S6: user U owns devices A and B, both away, B in vacation mode; each
  device carries a \<open>user.U\<close> object.
\<close>

definition S6_database :: database where
  "S6_database =
     \<lparr>states =
        [\<lparr>row_serial = ''A'', row_object_key = ''device.A'', row_object_revision = 4,
          row_object_timestamp = 100,
          row_value = JObj [(''away'', JBool True), (''away_timestamp'', JNum 100)],
          row_updatedAt = 100\<rparr>,
         \<lparr>row_serial = ''B'', row_object_key = ''device.B'', row_object_revision = 7,
          row_object_timestamp = 200,
          row_value = JObj [(''away'', JBool True), (''away_timestamp'', JNum 200),
                            (''vacation_mode'', JBool True)],
          row_updatedAt = 200\<rparr>,
         \<lparr>row_serial = ''A'', row_object_key = ''user.U'', row_object_revision = 3,
          row_object_timestamp = 50, row_value = JObj [(''name'', JStr ''home'')],
          row_updatedAt = 50\<rparr>,
         \<lparr>row_serial = ''B'', row_object_key = ''user.U'', row_object_revision = 3,
          row_object_timestamp = 50, row_value = JObj [(''name'', JStr ''home'')],
          row_updatedAt = 50\<rparr>],
      deviceOwners =
        [\<lparr>owner_userId = ''U'', owner_serial = ''A'', owner_createdAt = 1\<rparr>,
         \<lparr>owner_userId = ''U'', owner_serial = ''B'', owner_createdAt = 2\<rparr>],
      deviceShares = []\<rparr>"


text \<open>
  Scenario S5: the integration of user U with prefix \<open>nest\<close> and device C; the store
  also holds the objects of a device X that is not the user's.
\<close>

definition S5_integration :: MqttIntegration where
  "S5_integration = \<lparr>topicPrefix = ''nest'', userDeviceSerials = [''C'']\<rparr>"

definition S5_helpers :: mqtt_helpers where
  "S5_helpers =
     \<lparr>parseCommandTopic =
        (\<lambda>topic prefix. if topic = ''nest/X/device/away/set''
                        then Some (''X'', ''device'', ''away'') else None),
      parsePayload = (\<lambda>s. if s = ''true'' then JBool True else JStr s),
      haModeToNest = (\<lambda>s. if s = ''heat_cool'' then JStr ''range'' else JStr s),
      validateTemperature = (\<lambda>s v. None)\<rparr>"

definition S5_database :: database where
  "S5_database =
     \<lparr>states =
        [\<lparr>row_serial = ''C'', row_object_key = ''device.C'', row_object_revision = 2,
          row_object_timestamp = 10, row_value = JObj [(''away'', JBool False)],
          row_updatedAt = 10\<rparr>,
         \<lparr>row_serial = ''C'', row_object_key = ''shared.C'', row_object_revision = 4,
          row_object_timestamp = 10,
          row_value = JObj [(''target_temperature_type'', JStr ''off'')],
          row_updatedAt = 10\<rparr>,
         \<lparr>row_serial = ''X'', row_object_key = ''device.X'', row_object_revision = 2,
          row_object_timestamp = 10, row_value = JObj [(''away'', JBool False)],
          row_updatedAt = 10\<rparr>,
         \<lparr>row_serial = ''X'', row_object_key = ''shared.X'', row_object_revision = 4,
          row_object_timestamp = 10,
          row_value = JObj [(''target_temperature_type'', JStr ''off'')],
          row_updatedAt = 10\<rparr>],
      deviceOwners = [\<lparr>owner_userId = ''U'', owner_serial = ''C'', owner_createdAt = 1\<rparr>],
      deviceShares = []\<rparr>"


section \<open>Properties of the value model\<close>

lemma prop_set_prop: "own_prop (set_prop k v rec) key = (if key = k then v else own_prop rec key)"
  by (simp add: own_prop_def set_prop_def update_conv')

lemma keys_set_prop: "fst ` set (set_prop k v rec) = insert k (fst ` set rec)"
  by (simp add: set_prop_def dom_update)

lemma prop_absent: "key \<notin> fst ` set rec \<Longrightarrow> own_prop rec key = JUndefined"
  by (simp add: own_prop_def map_of_eq_None_iff[THEN iffD2])

lemma prop_snoc:
  "own_prop (b @ [(k, v)]) key
     = (if key \<in> fst ` set b then own_prop b key else if key = k then v else JUndefined)"
proof (cases "map_of b key")
  case None
  then have "key \<notin> fst ` set b" by (simp add: map_of_eq_None_iff)
  with None show ?thesis by (simp add: own_prop_def map_add_def)
next
  case (Some x)
  then have "key \<in> fst ` set b" by (metis map_of_eq_None_iff option.distinct(1))
  with Some show ?thesis by (simp add: own_prop_def map_add_def)
qed

lemma prop_spread:
  "distinct (map fst b) \<Longrightarrow>
   own_prop (spread a b) key = (if key \<in> fst ` set b then own_prop b key else own_prop a key)"
proof (induction b arbitrary: a rule: rev_induct)
  case Nil
  then show ?case by (simp add: spread_def)
next
  case (snoc kv b)
  obtain k v where kv: "kv = (k, v)" by (cases kv)
  from snoc.prems have d: "distinct (map fst b)" and fresh: "k \<notin> fst ` set b"
    by (simp_all add: kv)
  have upd: "own_prop (spread a (b @ [(k, v)])) x
               = (if x = k then v else own_prop (spread a b) x)" for x
    by (simp add: spread_def prop_set_prop)
  show ?case
  proof (cases "key \<in> fst ` set b")
    case True
    with fresh have "key \<noteq> k" by auto
    with True show ?thesis
      by (simp add: upd snoc.IH[OF d] kv prop_snoc)
  next
    case False
    then show ?thesis
      by (cases "key = k") (simp_all add: upd snoc.IH[OF d] kv prop_snoc)
  qed
qed

lemma keys_spread: "fst ` set (spread a b) = fst ` set a \<union> fst ` set b"
proof -
  have "fst ` set (fold (\<lambda>(key, v) result. set_prop key v result) b a)
          = fst ` set a \<union> fst ` set b"
    by (induction b arbitrary: a) (simp_all add: keys_set_prop case_prod_beta)
  then show ?thesis by (simp add: spread_def)
qed

lemma has_prop_iff: "has_prop rec key \<longleftrightarrow> key \<in> fst ` set rec"
  by (simp add: has_prop_def)

lemma has_prop_set_prop: "has_prop (set_prop k v rec) key \<longleftrightarrow> key = k \<or> has_prop rec key"
  by (simp add: has_prop_def keys_set_prop)

lemma prop_not_has: "\<not> has_prop rec key \<Longrightarrow> own_prop rec key = JUndefined"
  by (simp add: has_prop_def prop_absent)

lemma has_prop_lookup: "has_prop rec key \<Longrightarrow> \<exists>v. map_of rec key = Some v \<and> (key, v) \<in> set rec"
proof -
  assume "has_prop rec key"
  then have "map_of rec key \<noteq> None" by (simp add: has_prop_def map_of_eq_None_iff)
  then obtain v where "map_of rec key = Some v" by blast
  then show ?thesis using map_of_SomeD by fastforce
qed

lemma mergeValues_undefined_left: "mergeValues JUndefined incoming = incoming"
  by (cases incoming) simp_all

lemma mergeValues_not_object:
  "incoming \<noteq> JUndefined \<Longrightarrow> \<not> isObject current \<or> \<not> isObject incoming
   \<Longrightarrow> mergeValues current incoming = incoming"
  by (cases current; cases incoming) simp_all

text \<open>
  The loop of \<open>mergeValues\<close>, with the merged value at a key abstracted to \<open>f key\<close>
  and the name \<open>__proto__\<close> to \<open>p\<close>.
\<close>

lemma merge_loop_step_has:
  "has_prop (if k = p \<and> \<not> has_prop rec k then rec else set_prop k v rec) p \<longleftrightarrow> has_prop rec p"
  by (auto simp: has_prop_set_prop)

lemma merge_loop_prop:
  "own_prop (fold (\<lambda>key result. if key = p \<and> \<not> has_prop result key then result
                                    else set_prop key (f key) result) ks rec) key
     = (if key \<in> set ks \<and> (key = p \<longrightarrow> has_prop rec p) then f key else own_prop rec key)"
proof (induction ks arbitrary: rec)
  case Nil
  then show ?case by simp
next
  case (Cons k ks)
  let ?rec = "if k = p \<and> \<not> has_prop rec k then rec else set_prop k (f k) rec"
  have hp: "has_prop ?rec p \<longleftrightarrow> has_prop rec p" by (rule merge_loop_step_has)
  have here: "own_prop ?rec key
         = (if key = k \<and> (key = p \<longrightarrow> has_prop rec p) then f key else own_prop rec key)"
    by (auto simp: prop_set_prop)
  have "own_prop (fold (\<lambda>key result. if key = p \<and> \<not> has_prop result key then result
                                    else set_prop key (f key) result) (k # ks) rec) key
      = (if key \<in> set ks \<and> (key = p \<longrightarrow> has_prop ?rec p) then f key else own_prop ?rec key)"
    using Cons.IH[of ?rec] by simp
  then show ?case
    unfolding hp here by auto
qed

lemma merge_loop_keys:
  "fst ` set (fold (\<lambda>key result. if key = p \<and> \<not> has_prop result key then result
                                     else set_prop key (f key) result) ks rec)
     = fst ` set rec \<union> (set ks - (if has_prop rec p then {} else {p}))"
proof (induction ks arbitrary: rec)
  case Nil
  then show ?case by simp
next
  case (Cons k ks)
  let ?rec = "if k = p \<and> \<not> has_prop rec k then rec else set_prop k (f k) rec"
  have hp: "has_prop ?rec p \<longleftrightarrow> has_prop rec p" by (rule merge_loop_step_has)
  have here: "fst ` set ?rec = fst ` set rec \<union> ({k} - (if has_prop rec p then {} else {p}))"
    by (auto simp: keys_set_prop has_prop_iff)
  have "fst ` set (fold (\<lambda>key result. if key = p \<and> \<not> has_prop result key then result
                                     else set_prop key (f key) result) (k # ks) rec)
      = fst ` set ?rec \<union> (set ks - (if has_prop ?rec p then {} else {p}))"
    using Cons.IH[of ?rec] by simp
  then show ?case
    unfolding hp here by auto
qed

text \<open>
  What the merge of two objects reads at a key, when no own property of the incoming
  object holds \<open>undefined\<close> and the key is not an inherited \<open>__proto__\<close>.
\<close>

lemma mergeValues_objects_prop:
  assumes "\<forall>(k, v) \<in> set i. v \<noteq> JUndefined"
    and "key \<noteq> ''__proto__'' \<or> has_prop c ''__proto__''"
    and "mergeValues (JObj c) (JObj i) = JObj r"
  shows "own_prop r key = mergeValues (own_prop c key) (own_prop i key)"
proof -
  from assms(3) have "r = fold (\<lambda>key result. if key = ''__proto__'' \<and> \<not> has_prop result key
                    then result
                    else set_prop key (mergeValues (read_prop c key) (own_prop i key)) result)
               (map fst i) c"
    by simp
  then have "own_prop r key
      = (if key \<in> set (map fst i) \<and> (key = ''__proto__'' \<longrightarrow> has_prop c ''__proto__'')
         then mergeValues (read_prop c key) (own_prop i key) else own_prop c key)"
    by (simp only: merge_loop_prop)
  then have r: "own_prop r key
      = (if has_prop i key \<and> (key = ''__proto__'' \<longrightarrow> has_prop c ''__proto__'')
         then mergeValues (read_prop c key) (own_prop i key) else own_prop c key)"
    by (simp only: has_prop_def)
  show ?thesis
  proof (cases "has_prop i key")
    case False
    then show ?thesis using r by (simp add: prop_not_has)
  next
    case True
    then obtain v where "map_of i key = Some v" "(key, v) \<in> set i"
      using has_prop_lookup by blast
    with assms(1) have iv: "own_prop i key \<noteq> JUndefined"
      by (auto simp: own_prop_def)
    show ?thesis
    proof (cases "has_prop c key")
      case True
      then show ?thesis using r \<open>has_prop i key\<close> assms(2) by (simp add: read_prop_def)
    next
      case False
      then have c: "own_prop c key = JUndefined" by (rule prop_not_has)
      have "\<not> isObject (read_prop c key)" using False by (simp add: read_prop_def)
      then have "mergeValues (read_prop c key) (own_prop i key) = own_prop i key"
        using iv by (simp add: mergeValues_not_object)
      moreover have "key \<noteq> ''__proto__''" using assms(2) False by auto
      ultimately show ?thesis
        using r \<open>has_prop i key\<close> c by (simp add: mergeValues_undefined_left)
    qed
  qed
qed

lemma mergeValues_objects_absent:
  assumes "\<not> has_prop i key" and "mergeValues (JObj c) (JObj i) = JObj r"
  shows "own_prop r key = own_prop c key"
proof -
  from assms(2) have "r = fold (\<lambda>key result. if key = ''__proto__'' \<and> \<not> has_prop result key
                    then result
                    else set_prop key (mergeValues (read_prop c key) (own_prop i key)) result)
               (map fst i) c"
    by simp
  then have "own_prop r key
      = (if key \<in> set (map fst i) \<and> (key = ''__proto__'' \<longrightarrow> has_prop c ''__proto__'')
         then mergeValues (read_prop c key) (own_prop i key) else own_prop c key)"
    by (simp only: merge_loop_prop)
  with assms(1) show ?thesis by (simp add: has_prop_def)
qed

lemma list_all_update:
  "list_all P rec \<Longrightarrow> P (k, v) \<Longrightarrow> list_all P (AList.update k v rec)"
  by (induction rec) auto

lemma json_shaped_own_prop:
  "list_all (\<lambda>(k, v). json_shaped v) rec \<Longrightarrow> key \<in> fst ` set rec \<Longrightarrow> json_shaped (own_prop rec key)"
  by (induction rec) (auto simp: own_prop_def)

lemma json_shaped_not_undefined: "json_shaped v \<Longrightarrow> v \<noteq> JUndefined"
  by (cases v) simp_all

lemma json_shaped_mergeValues:
  "json_shaped a \<Longrightarrow> json_shaped b \<Longrightarrow> json_shaped (mergeValues a b)"
proof (induction a b rule: mergeValues.induct)
  case (3 c i)
  have merged: "json_shaped (mergeValues (read_prop c key) (own_prop i key))"
    if ki: "key \<in> fst ` set i" for key
  proof -
    have si: "json_shaped (own_prop i key)"
      using 3(3) ki by (simp add: json_shaped_own_prop)
    show ?thesis
    proof (cases "has_prop c key")
      case True
      then have "json_shaped (read_prop c key)"
        using 3(2) by (simp add: read_prop_def has_prop_def json_shaped_own_prop)
      moreover have "\<not> (key = ''__proto__'' \<and> \<not> has_prop c key)" using True by simp
      ultimately show ?thesis using 3(1)[of key c] ki si by simp
    next
      case False
      then have "\<not> isObject (read_prop c key)" by (simp add: read_prop_def)
      then show ?thesis
        using si json_shaped_not_undefined[OF si] by (simp add: mergeValues_not_object)
    qed
  qed
  have step: "list_all (\<lambda>(k, v). json_shaped v)
           (fold (\<lambda>key result.
                   if key = ''__proto__'' \<and> \<not> has_prop result key then result
                   else set_prop key (mergeValues (read_prop c key) (own_prop i key)) result)
                ks r)"
    if "set ks \<subseteq> fst ` set i" "list_all (\<lambda>(k, v). json_shaped v) r" for ks r
    using that
  proof (induction ks arbitrary: r)
    case Nil
    then show ?case by simp
  next
    case (Cons key ks)
    have ki: "key \<in> fst ` set i" using Cons.prems(1) by simp
    have "list_all (\<lambda>(k, v). json_shaped v)
       (set_prop key (mergeValues (read_prop c key) (own_prop i key)) r)"
      using Cons.prems(2) merged[OF ki] by (simp add: set_prop_def list_all_update)
    then show ?case using Cons.IH Cons.prems by simp
  qed
  show ?case using step[of "map fst i" c] 3(2) by simp
qed (simp_all)

lemma json_roundtrip_id: "json_shaped v \<Longrightarrow> json_roundtrip v = v"
proof (induction v rule: json_roundtrip.induct)
  case (3 xs)
  then show ?case by (simp add: list_all_iff map_idI)
next
  case (4 kvs)
  have f: "filter (\<lambda>(k, v). v \<noteq> JUndefined \<and> v \<noteq> JFunction) kvs = kvs"
    using 4(2) by (auto simp: list_all_iff filter_id_conv)
  have "map (\<lambda>(k, v). (k, json_roundtrip v)) kvs = kvs"
    using 4 f by (auto simp: list_all_iff intro!: map_idI)
  with f show ?case by simp
qed simp_all

lemma keys_extract: "fst ` set (extractFanTimerState v) = fan_timer_keys"
  by (simp add: extractFanTimerState_def fan_timer_keys_def)

lemma distinct_extract: "distinct (map fst (extractFanTimerState v))"
  by (simp add: extractFanTimerState_def)

lemma prop_extract:
  "key \<in> fan_timer_keys \<Longrightarrow> own_prop (extractFanTimerState v) key = own_prop v key"
  by (auto simp: extractFanTimerState_def fan_timer_keys_def own_prop_def)

lemma shouldPreserveFanTimer_iff:
  "shouldPreserveFanTimer now existing merged \<longleftrightarrow>
     (\<exists>t. own_prop existing ''fan_timer_timeout'' = JNum t \<and> t \<noteq> 0 \<and> now div 1000 < t)
     \<and> \<not> ((has_prop merged ''fan_timer_timeout'' \<and> own_prop merged ''fan_timer_timeout'' = JNum 0)
          \<or> (has_prop merged ''fan_control_state'' \<and> own_prop merged ''fan_control_state'' = JBool False))"
  by (cases "own_prop existing ''fan_timer_timeout''")
     (auto simp: shouldPreserveFanTimer_def isExplicitlyTurningOffFan_def Let_def)

lemma find_map_update:
  "(\<And>r. P (f r) = P r) \<Longrightarrow>
   find P (map (\<lambda>r. if P r then f r else r) rows) = map_option f (find P rows)"
  by (induction rows) simp_all

lemma find_snoc:
  "find P (rows @ [r]) = (case find P rows of Some x \<Rightarrow> Some x | None \<Rightarrow> (if P r then Some r else None))"
  by (induction rows) simp_all

lemma getState_None [simp]: "getState None serial objectKey = None"
  by (simp add: getState_def)

lemma getState_upsert_existing:
  assumes "getState (Some db) serial objectKey = Some cur"
  shows "getState (upsertState now (Some db) serial objectKey revision timestamp v) serial objectKey
           = Some \<lparr>object_key = objectKey, object_revision = revision,
                    object_timestamp = timestamp,
                    object_value = json_roundtrip
                      (mergeValues (nullish (object_value cur) (JObj [])) (nullish v (JObj [])))\<rparr>"
proof -
  let ?P = "\<lambda>r. row_serial r = serial \<and> row_object_key r = objectKey"
  let ?m = "json_roundtrip (mergeValues (nullish (object_value cur) (JObj [])) (nullish v (JObj [])))"
  let ?f = "\<lambda>r. r\<lparr>row_object_revision := revision, row_object_timestamp := timestamp,
                   row_value := ?m, row_updatedAt := now\<rparr>"
  from assms obtain row where row: "find ?P (states db) = Some row"
    by (auto simp: getState_def split: option.splits)
  then have Prow: "?P row" by (auto simp: find_Some_iff)
  have up: "upsertState now (Some db) serial objectKey revision timestamp v
              = Some (db\<lparr>states := map (\<lambda>r. if ?P r then ?f r else r) (states db)\<rparr>)"
    using assms by (simp add: upsertState_def Let_def)
  have "find ?P (map (\<lambda>r. if ?P r then ?f r else r) (states db)) = map_option ?f (find ?P (states db))"
    by (rule find_map_update) simp
  then show ?thesis
    using row Prow by (simp add: up getState_def)
qed

lemma upsertState_insert:
  assumes "getState (Some db) serial objectKey = None"
  shows "upsertState now (Some db) serial objectKey revision timestamp v
           = Some (db\<lparr>states := states db @
                     [\<lparr>row_serial = serial, row_object_key = objectKey,
                       row_object_revision = revision, row_object_timestamp = timestamp,
                       row_value = json_roundtrip v, row_updatedAt = now\<rparr>]\<rparr>)"
  using assms by (simp add: upsertState_def)

lemma getState_upsert_insert:
  assumes "getState (Some db) serial objectKey = None"
  shows "getState (upsertState now (Some db) serial objectKey revision timestamp v) serial objectKey
           = Some \<lparr>object_key = objectKey, object_revision = revision,
                    object_timestamp = timestamp, object_value = json_roundtrip v\<rparr>"
proof -
  from assms have "find (\<lambda>r. row_serial r = serial \<and> row_object_key r = objectKey) (states db) = None"
    by (auto simp: getState_def split: option.splits)
  then show ?thesis
    by (simp add: upsertState_insert[OF assms] getState_def find_snoc)
qed


section \<open>Properties of the watchdog operations\<close>

lemma refreshActive_markSeen: "refreshActive now serial w = markSeen now serial w"
  by (simp add: refreshActive_def markSeen_def Let_def split: option.splits)

lemma notify_states [simp]: "deviceStates (notifyAvailabilityChange x b w) = deviceStates w"
  by (simp add: notifyAvailabilityChange_def)

lemma notify_handler [simp]: "onAvailabilityChange (notifyAvailabilityChange x b w) = onAvailabilityChange w"
  by (simp add: notifyAvailabilityChange_def)

lemma markSeen_lookup:
  "map_of (deviceStates (markSeen t x w)) s
     = (if s = x then Some \<lparr>lastSeen = t, isAvailable = True\<rparr> else map_of (deviceStates w) s)"
  by (auto simp: markSeen_def Let_def update_conv' split: option.splits)

lemma markSeen_handler [simp]: "onAvailabilityChange (markSeen t x w) = onAvailabilityChange w"
  by (simp add: markSeen_def Let_def split: option.splits)


lemma fold_markSeen_lookup:
  "map_of (deviceStates (fold (markSeen t) xs w)) s
     = (if s \<in> set xs then Some \<lparr>lastSeen = t, isAvailable = True\<rparr> else map_of (deviceStates w) s)"
  by (induction xs arbitrary: w) (auto simp: markSeen_lookup)

lemma fold_markSeen_handler [simp]:
  "onAvailabilityChange (fold (markSeen t) xs w) = onAvailabilityChange w"
  by (induction xs arbitrary: w) simp_all


lemma timeoutDevice_lookup:
  "map_of (deviceStates (timeoutDevice timeout now x w)) s
     = (if s = x then
          (case map_of (deviceStates w) s of
             None \<Rightarrow> None
           | Some st \<Rightarrow> Some (if isAvailable st \<and> now - lastSeen st > timeout
                              then st\<lparr>isAvailable := False\<rparr> else st))
        else map_of (deviceStates w) s)"
  by (auto simp: timeoutDevice_def Let_def update_conv' split: option.splits)

lemma timeoutDevice_handler [simp]:
  "onAvailabilityChange (timeoutDevice timeout now x w) = onAvailabilityChange w"
  by (simp add: timeoutDevice_def Let_def split: option.splits)


lemma fold_timeoutDevice_handler [simp]:
  "onAvailabilityChange (fold (timeoutDevice timeout now) xs w) = onAvailabilityChange w"
  by (induction xs arbitrary: w) simp_all

lemma fold_timeoutDevice_lookup:
  "map_of (deviceStates (fold (timeoutDevice timeout now) xs w)) s
     = (if s \<in> set xs then
          (case map_of (deviceStates w) s of
             None \<Rightarrow> None
           | Some st \<Rightarrow> Some (if isAvailable st \<and> now - lastSeen st > timeout
                              then st\<lparr>isAvailable := False\<rparr> else st))
        else map_of (deviceStates w) s)"
proof (induction xs arbitrary: w)
  case Nil
  then show ?case by simp
next
  case (Cons x xs)
  show ?case
    by (cases "map_of (deviceStates w) s") (auto simp: Cons.IH timeoutDevice_lookup)
qed


lemma keys_iff_lookup: "s \<in> set (map fst kvs) \<longleftrightarrow> map_of kvs s \<noteq> None"
  by (simp add: map_of_eq_None_iff)

lemma fold_refreshActive: "fold (refreshActive now) xs w = fold (markSeen now) xs w"
  by (simp add: refreshActive_markSeen[abs_def])

lemma TIMEOUT_MS_nonneg: "\<not> 0 > TIMEOUT_MS"
  by (simp add: TIMEOUT_MS_def)

lemma is_active_list: "is_active s sm \<longleftrightarrow> s \<in> set (active_list sm)"
  by (simp add: is_active_def active_list_def split: option.splits)

lemma checkDeviceTimeouts_unfold:
  "checkDeviceTimeouts now sm w
     = fold (timeoutDevice TIMEOUT_MS now)
         (map fst (deviceStates (fold (markSeen now) (active_list sm) w)))
         (fold (markSeen now) (active_list sm) w)"
  by (cases sm) (simp_all add: checkDeviceTimeouts_def Let_def fold_refreshActive active_list_def)

lemma sweep_lookup:
  "map_of (deviceStates (checkDeviceTimeouts now sm w)) s
     = (if is_active s sm then Some \<lparr>lastSeen = now, isAvailable = True\<rparr>
        else (case map_of (deviceStates w) s of
                None \<Rightarrow> None
              | Some st \<Rightarrow> Some (if isAvailable st \<and> now - lastSeen st > TIMEOUT_MS
                                 then st\<lparr>isAvailable := False\<rparr> else st)))"
  using TIMEOUT_MS_nonneg
  by (simp add: checkDeviceTimeouts_unfold is_active_list fold_timeoutDevice_lookup
        fold_markSeen_lookup keys_iff_lookup del: set_map split: option.splits)

lemma sweep_handler [simp]:
  "onAvailabilityChange (checkDeviceTimeouts now sm w) = onAvailabilityChange w"
  by (simp add: checkDeviceTimeouts_unfold)


lemma run_events_handler [simp]:
  "onAvailabilityChange (run_events evs w) = onAvailabilityChange w"
  unfolding run_events_def
proof (induction evs arbitrary: w)
  case Nil
  then show ?case by simp
next
  case (Cons e evs)
  then show ?case by (cases e) simp_all
qed








section \<open>Properties of the reconciler\<close>

lemma set_update_cases:
  "(s, b) \<in> set (AList.update k v al) \<Longrightarrow> (s, b) = (k, v) \<or> (s, b) \<in> set al"
  by (induction al) (auto split: if_splits)

lemma js_Number_or_0_zero [simp]: "js_Number_or_0 v = 0"
  by (simp add: js_Number_or_0_def split: option.splits)

lemma single_key_store_row:
  assumes "single_key (row_object_key row) ds"
  shows "single_key (row_object_key row) (store_row row ds)"
  unfolding single_key_def
proof (intro allI impI)
  fix s b k e
  let ?bucket = "case map_of ds (row_serial row) of Some b \<Rightarrow> b | None \<Rightarrow> []"
  assume m: "(s, b) \<in> set (store_row row ds)" and x: "(k, e) \<in> set b"
  have old: "k' = row_object_key row" if "(k', e') \<in> set ?bucket" for k' e'
  proof (cases "map_of ds (row_serial row)")
    case None
    with that show ?thesis by simp
  next
    case (Some b')
    then have "(row_serial row, b') \<in> set ds" by (rule map_of_SomeD)
    with assms Some that show ?thesis
      unfolding single_key_def by (metis option.simps(5))
  qed
  from m have "(s, b) \<in> set (AList.update (row_serial row)
           (AList.update (row_object_key row)
              \<lparr>entry_object_key = row_object_key row,
                entry_object_revision = row_object_revision row,
                entry_object_timestamp = row_object_timestamp row,
                entry_value = row_value row,
                entry_updatedAt = row_updatedAt row\<rparr> ?bucket) ds)"
    by (simp add: store_row_def Let_def)
  from set_update_cases[OF this] show "k = row_object_key row"
  proof
    assume "(s, b) = (row_serial row, AList.update (row_object_key row)
              \<lparr>entry_object_key = row_object_key row,
                entry_object_revision = row_object_revision row,
                entry_object_timestamp = row_object_timestamp row,
                entry_value = row_value row,
                entry_updatedAt = row_updatedAt row\<rparr> ?bucket)"
    with x have "(k, e) \<in> set (AList.update (row_object_key row)
              \<lparr>entry_object_key = row_object_key row,
                entry_object_revision = row_object_revision row,
                entry_object_timestamp = row_object_timestamp row,
                entry_value = row_value row,
                entry_updatedAt = row_updatedAt row\<rparr> ?bucket)" by simp
    from set_update_cases[OF this] old show ?thesis by blast
  next
    assume "(s, b) \<in> set ds"
    with assms x show ?thesis unfolding single_key_def by blast
  qed
qed

lemma single_key_fold:
  "\<forall>row \<in> set rows. row_object_key row = key \<Longrightarrow> single_key key ds
   \<Longrightarrow> single_key key (fold store_row rows ds)"
proof (induction rows arbitrary: ds)
  case Nil
  then show ?case by simp
next
  case (Cons row rows)
  have "single_key key (store_row row ds)"
    using single_key_store_row[of row ds] Cons.prems by simp
  then show ?case using Cons.IH Cons.prems(1) by simp
qed

lemma getAllStateForDevice_bucket_keys:
  assumes "map_of (getAllStateForDevice dbo serial key) x = Some bucket" and "k \<noteq> key"
  shows "map_of bucket k = None"
proof -
  have "single_key key (getAllStateForDevice dbo serial key)"
  proof (cases dbo)
    case None
    then show ?thesis by (simp add: getAllStateForDevice_def single_key_def)
  next
    case (Some db)
    show ?thesis
      unfolding getAllStateForDevice_def Some option.case
      by (rule single_key_fold) (simp_all add: single_key_def)
  qed
  moreover from assms(1) have "(x, bucket) \<in> set (getAllStateForDevice dbo serial key)"
    by (rule map_of_SomeD)
  ultimately have "\<forall>e. (k, e) \<notin> set bucket"
    using assms(2) unfolding single_key_def by blast
  then show ?thesis
    by (metis map_of_SomeD not_None_eq)
qed

lemma store_lookup_fold:
  "map_of (fold store_row rows ds) x
     = (if x \<in> row_serial ` set rows then map_of (fold store_row rows ds) x else map_of ds x)"
  by (induction rows arbitrary: ds) (auto simp: store_row_def Let_def update_conv')

lemma getAllStateForDevice_other_serial:
  "x \<noteq> serial \<Longrightarrow> map_of (getAllStateForDevice dbo serial key) x = None"
proof (cases dbo)
  case None
  then show ?thesis by (simp add: getAllStateForDevice_def)
next
  case (Some db)
  assume "x \<noteq> serial"
  then have "x \<notin> row_serial ` set (filter (\<lambda>r. row_serial r = serial \<and> row_object_key r = key)
                                     (states db))"
    by auto
  then show ?thesis
    using store_lookup_fold[of "filter (\<lambda>r. row_serial r = serial \<and> row_object_key r = key)
                                     (states db)" "[]" x]
    by (simp add: getAllStateForDevice_def Some)
qed

lemma scanOwnedDevices_never_away:
  assumes "\<not> hasVacationMode sc" "mostRecentAwayTimestamp sc = 0"
    "mostRecentManualAwayTimestamp sc = 0" "mostRecentAwaySetter sc = None"
    "anyDeviceReported sc \<longrightarrow> \<not> allAway sc"
  shows "\<not> hasVacationMode (scanOwnedDevices dbo devs sc)
       \<and> mostRecentAwayTimestamp (scanOwnedDevices dbo devs sc) = 0
       \<and> mostRecentManualAwayTimestamp (scanOwnedDevices dbo devs sc) = 0
       \<and> mostRecentAwaySetter (scanOwnedDevices dbo devs sc) = None
       \<and> (anyDeviceReported (scanOwnedDevices dbo devs sc)
            \<longrightarrow> \<not> allAway (scanOwnedDevices dbo devs sc))"
  using assms
proof (induction devs arbitrary: sc)
  case Nil
  then show ?case by simp
next
  case (Cons d devs)
  let ?key = "''device.'' @ owner_serial d"
  let ?ds = "getAllStateForDevice dbo (owner_serial d) ?key"
  show ?case
  proof (cases "map_of ?ds ''value''")
    case None
    then show ?thesis using Cons.IH[of sc] Cons.prems by simp
  next
    case (Some v)
    have "map_of v ''away'' = None"
      by (rule getAllStateForDevice_bucket_keys[OF Some]) simp
    moreover have "map_of v ''vacation_mode'' = None"
      by (rule getAllStateForDevice_bucket_keys[OF Some]) simp
    ultimately show ?thesis
      using Some Cons.prems by (simp add: Let_def js_Boolean_def)
  qed
qed

lemma scanOwnedDevices_unreported:
  "\<forall>d \<in> set devs. owner_serial d \<noteq> ''value'' \<Longrightarrow> scanOwnedDevices dbo devs sc = sc"
proof (induction devs arbitrary: sc)
  case Nil
  then show ?case by simp
next
  case (Cons d devs)
  from Cons.prems have "''value'' \<noteq> owner_serial d" by auto
  then have "map_of (getAllStateForDevice dbo (owner_serial d) (''device.'' @ owner_serial d))
               ''value'' = None"
    by (rule getAllStateForDevice_other_serial)
  then show ?case using Cons.IH Cons.prems by simp
qed

lemma S6_owned:
  "getOwnerDevices (Some S6_database) ''U''
     = Some [\<lparr>owner_userId = ''U'', owner_serial = ''A'', owner_createdAt = 1\<rparr>,
             \<lparr>owner_userId = ''U'', owner_serial = ''B'', owner_createdAt = 2\<rparr>]"
  by (simp add: getOwnerDevices_def stripUserPrefix_def S6_database_def)

lemma writeUserState_unreported:
  "\<forall>d \<in> set devs. owner_serial d \<noteq> ''value'' \<Longrightarrow>
   writeUserState nowMs userId initial_scan False devs dbo
     = fold (\<lambda>d dbo'. upsertState nowMs dbo' (owner_serial d) (''user.'' @ userId) 1 nowMs
                (JObj [(''away'', JBool False), (''vacation_mode'', JBool False)])) devs dbo"
proof (induction devs arbitrary: dbo)
  case Nil
  then show ?case by simp
next
  case (Cons d devs)
  from Cons.prems have "''value'' \<noteq> owner_serial d" by auto
  then have "map_of (getAllStateForDevice dbo (owner_serial d) (''user.'' @ userId)) ''value'' = None"
    by (rule getAllStateForDevice_other_serial)
  then show ?case using Cons.IH Cons.prems
    by (simp add: Let_def initial_scan_def spread_def set_prop_def)
qed

lemma find_map_frame:
  "(\<And>r. P (g r) = P r) \<Longrightarrow> (\<And>r. P r \<Longrightarrow> g r = r) \<Longrightarrow> find P (map g rows) = find P rows"
  by (induction rows) simp_all

lemma getState_upsert_existing_opt:
  "getState dbo serial objectKey = Some cur \<Longrightarrow>
   getState (upsertState now dbo serial objectKey revision timestamp v) serial objectKey
     = Some \<lparr>object_key = objectKey, object_revision = revision,
              object_timestamp = timestamp,
              object_value = json_roundtrip
                (mergeValues (nullish (object_value cur) (JObj [])) (nullish v (JObj [])))\<rparr>"
  by (cases dbo) (simp_all add: getState_upsert_existing)

lemma getState_upsert_frame:
  assumes "serial' \<noteq> serial \<or> objectKey' \<noteq> objectKey"
  shows "getState (upsertState now dbo serial objectKey revision timestamp v) serial' objectKey'
           = getState dbo serial' objectKey'"
proof (cases dbo)
  case None
  then show ?thesis by (simp add: upsertState_def)
next
  case (Some db)
  let ?P = "\<lambda>r. row_serial r = serial' \<and> row_object_key r = objectKey'"
  show ?thesis
  proof (cases "getState (Some db) serial objectKey")
    case None
    have "find ?P (states db @ [\<lparr>row_serial = serial, row_object_key = objectKey,
                       row_object_revision = revision, row_object_timestamp = timestamp,
                       row_value = json_roundtrip v, row_updatedAt = now\<rparr>]) = find ?P (states db)"
      using assms by (auto simp: find_snoc split: option.splits)
    then show ?thesis
      by (simp add: Some upsertState_insert[OF None] getState_def)
  next
    case (Some cur)
    let ?g = "\<lambda>r. if row_serial r = serial \<and> row_object_key r = objectKey
                   then r\<lparr>row_object_revision := revision,
                          row_object_timestamp := timestamp,
                          row_value := json_roundtrip
                            (mergeValues (nullish (object_value cur) (JObj [])) (nullish v (JObj []))),
                          row_updatedAt := now\<rparr>
                   else r"
    have "find ?P (map ?g (states db)) = find ?P (states db)"
      by (rule find_map_frame) (use assms in auto)
    then show ?thesis
      using Some by (simp add: \<open>dbo = Some db\<close> upsertState_def Let_def getState_def)
  qed
qed


section \<open>Properties of topic matching\<close>

lemma startsWith_append [simp]: "startsWith (p @ s) p"
  by (simp add: startsWith_def)

lemma endsWith_append [simp]: "endsWith (s @ p) p"
  by (simp add: endsWith_def)

lemma startsWith_includes: "startsWith s p \<Longrightarrow> str_includes s p"
  by (cases s) (auto simp: startsWith_def)

lemma includes_append: "str_includes (a @ p @ b) p"
proof (induction a)
  case Nil
  then show ?case by (simp add: startsWith_includes)
next
  case (Cons c a)
  then show ?case by simp
qed

lemma matchHaTopic_shape:
  assumes "CHR ''/'' \<notin> set serial"
  shows "matchHaTopic prefix (prefix @ ''/'' @ serial @ ''/ha/'' @ command @ ''/set'')
           = (if serial \<noteq> [] \<and> command \<noteq> [] \<and> \<not> list_ex line_terminator command
              then Some (serial, command) else None)"
proof -
  let ?topic = "prefix @ ''/'' @ serial @ ''/ha/'' @ command @ ''/set''"
  have sw: "startsWith ?topic (prefix @ ''/'')"
    using startsWith_append[of "prefix @ ''/''" "serial @ ''/ha/'' @ command @ ''/set''"] by simp
  have rest: "drop (length prefix + 1) ?topic = serial @ ''/ha/'' @ command @ ''/set''"
    by simp
  have tw: "takeWhile (\<lambda>c. c \<noteq> CHR ''/'') (serial @ ''/ha/'' @ command @ ''/set'') = serial"
    using assms by (subst takeWhile_append2) auto
  have dw: "dropWhile (\<lambda>c. c \<noteq> CHR ''/'') (serial @ ''/ha/'' @ command @ ''/set'')
              = ''/ha/'' @ command @ ''/set''"
    using assms by (subst dropWhile_append2) auto
  have after: "startsWith (''/ha/'' @ command @ ''/set'') ''/ha/''"
    by (rule startsWith_append)
  have tail: "drop 4 (''/ha/'' @ command @ ''/set'') = command @ ''/set''" by simp
  have ew: "endsWith (command @ ''/set'') ''/set''" by (rule endsWith_append)
  have cmd: "take (length (command @ ''/set'') - 4) (command @ ''/set'') = command" by simp
  show ?thesis
    unfolding matchHaTopic_def Let_def rest tw dw tail cmd
    using sw after ew by simp
qed


section \<open>Deep merge rule\<close>

text \<open>
  Claim C4, at a JSON-shaped input. Both sides are mappings, and the incoming one has
  the key \<open>__proto__\<close>, which the current one lacks. The rule asks for a result over
  the keys \<open>a\<close>, \<open>__proto__\<close> and \<open>t\<close> whose value at \<open>__proto__\<close> is the incoming
  \<open>{x: 1}\<close>; \<open>mergeValues\<close> returns \<open>{a: 1, t: 2}\<close>, without that key.
\<close>

theorem mergeValues_drops_proto_key:
  "json_shaped proto_current \<and> json_shaped proto_write
   \<and> isObject proto_current \<and> isObject proto_write
   \<and> mergeValues proto_current proto_write = JObj [(''a'', JNum 1), (''t'', JNum 2)]
   \<and> ''__proto__'' \<in> set (object_keys proto_current) \<union> set (object_keys proto_write)
   \<and> ''__proto__'' \<notin> set (object_keys (mergeValues proto_current proto_write))
   \<and> get_prop (mergeValues proto_current proto_write) ''__proto__''
       \<noteq> mergeValues (get_prop proto_current ''__proto__'') (get_prop proto_write ''__proto__'')"
  by (simp add: proto_current_def proto_write_def has_prop_def set_prop_def own_prop_def
        read_prop_def object_prototype_methods_def)


section \<open>Fan timer preservation rule\<close>

text \<open>
  Claim C3. \<open>preserveFanTimer\<close> copies fields from the existing value exactly when the
  existing \<open>fan_timer_timeout\<close> is a number, is not zero and is greater than the
  current time in whole seconds, and the merged value is not an explicit fan-off
  (\<open>fan_timer_timeout\<close> present and 0, or \<open>fan_control_state\<close> present and false). When
  it copies, the result reads the five fan-timer keys from the existing value and
  every other key from the merged value; otherwise the result is the merged value.
\<close>

theorem preserveFanTimer_applies_iff:
  "((\<exists>t. own_prop existing ''fan_timer_timeout'' = JNum t \<and> t \<noteq> 0 \<and> now div 1000 < t)
      \<and> \<not> ((has_prop merged ''fan_timer_timeout'' \<and> own_prop merged ''fan_timer_timeout'' = JNum 0)
           \<or> (has_prop merged ''fan_control_state'' \<and> own_prop merged ''fan_control_state'' = JBool False))
     \<longrightarrow> (\<forall>key. own_prop (preserveFanTimer now merged existing) key
                = (if key \<in> fan_timer_keys then own_prop existing key else own_prop merged key)))
   \<and> (\<not> ((\<exists>t. own_prop existing ''fan_timer_timeout'' = JNum t \<and> t \<noteq> 0 \<and> now div 1000 < t)
      \<and> \<not> ((has_prop merged ''fan_timer_timeout'' \<and> own_prop merged ''fan_timer_timeout'' = JNum 0)
           \<or> (has_prop merged ''fan_control_state'' \<and> own_prop merged ''fan_control_state'' = JBool False)))
     \<longrightarrow> preserveFanTimer now merged existing = merged)"
proof (intro conjI impI allI)
  fix key
  assume "(\<exists>t. own_prop existing ''fan_timer_timeout'' = JNum t \<and> t \<noteq> 0 \<and> now div 1000 < t)
      \<and> \<not> ((has_prop merged ''fan_timer_timeout'' \<and> own_prop merged ''fan_timer_timeout'' = JNum 0)
           \<or> (has_prop merged ''fan_control_state'' \<and> own_prop merged ''fan_control_state'' = JBool False))"
  then have "shouldPreserveFanTimer now existing merged"
    unfolding shouldPreserveFanTimer_iff .
  then have "preserveFanTimer now merged existing = spread merged (extractFanTimerState existing)"
    by (simp add: preserveFanTimer_def)
  then show "own_prop (preserveFanTimer now merged existing) key
                = (if key \<in> fan_timer_keys then own_prop existing key else own_prop merged key)"
    by (simp add: prop_spread[OF distinct_extract] keys_extract prop_extract)
next
  assume "\<not> ((\<exists>t. own_prop existing ''fan_timer_timeout'' = JNum t \<and> t \<noteq> 0 \<and> now div 1000 < t)
      \<and> \<not> ((has_prop merged ''fan_timer_timeout'' \<and> own_prop merged ''fan_timer_timeout'' = JNum 0)
           \<or> (has_prop merged ''fan_control_state'' \<and> own_prop merged ''fan_control_state'' = JBool False)))"
  then have "\<not> shouldPreserveFanTimer now existing merged"
    unfolding shouldPreserveFanTimer_iff .
  then show "preserveFanTimer now merged existing = merged"
    by (simp add: preserveFanTimer_def)
qed


text \<open>
  An active timer with a merged value that sets other fan fields, and the same timer
  with an explicit fan-off.
\<close>

theorem preserveFanTimer_applies_iff_witness:
  "own_prop (preserveFanTimer 1700000000000
        [(''fan_timer_timeout'', JNum 5), (''fan_mode'', JStr ''auto''), (''temperature'', JNum 21)]
        fan_on_value) ''fan_mode'' = JStr ''on''
   \<and> own_prop (preserveFanTimer 1700000000000
        [(''fan_timer_timeout'', JNum 5), (''fan_mode'', JStr ''auto''), (''temperature'', JNum 21)]
        fan_on_value) ''temperature'' = JNum 21
   \<and> preserveFanTimer 1700000000000 [(''fan_timer_timeout'', JNum 0)] fan_on_value
       = [(''fan_timer_timeout'', JNum 0)]"
  using preserveFanTimer_applies_iff[of fan_on_value 1700000000000
          "[(''fan_timer_timeout'', JNum 5), (''fan_mode'', JStr ''auto''), (''temperature'', JNum 21)]"]
        preserveFanTimer_applies_iff[of fan_on_value 1700000000000
          "[(''fan_timer_timeout'', JNum 0)]"]
  by (simp add: fan_on_value_def own_prop_def has_prop_def fan_timer_keys_def)


section \<open>Upserts\<close>

text \<open>
  Claim C10. When no object is stored under the serial and key, \<open>upsertState\<close> adds one
  row holding the incoming value as it is, with no merge and no fan-timer
  preservation, the caller's revision and timestamp, and \<open>updatedAt\<close> set to the
  current time; reading the key back returns that value, revision and timestamp.
\<close>

theorem upsertState_insert_verbatim:
  "getState (Some db) serial objectKey = None \<and> json_shaped v \<longrightarrow>
     upsertState now (Some db) serial objectKey revision timestamp v
       = Some (db\<lparr>states := states db @
                 [\<lparr>row_serial = serial, row_object_key = objectKey,
                   row_object_revision = revision, row_object_timestamp = timestamp,
                   row_value = v, row_updatedAt = now\<rparr>]\<rparr>)
     \<and> getState (upsertState now (Some db) serial objectKey revision timestamp v) serial objectKey
       = Some \<lparr>object_key = objectKey, object_revision = revision,
                object_timestamp = timestamp, object_value = v\<rparr>"
proof (intro impI, elim conjE, intro conjI)
  assume absent: "getState (Some db) serial objectKey = None" and shaped: "json_shaped v"
  show "upsertState now (Some db) serial objectKey revision timestamp v
       = Some (db\<lparr>states := states db @
                 [\<lparr>row_serial = serial, row_object_key = objectKey,
                   row_object_revision = revision, row_object_timestamp = timestamp,
                   row_value = v, row_updatedAt = now\<rparr>]\<rparr>)"
    using upsertState_insert[OF absent] shaped by (simp add: json_roundtrip_id)
  show "getState (upsertState now (Some db) serial objectKey revision timestamp v) serial objectKey
       = Some \<lparr>object_key = objectKey, object_revision = revision,
                object_timestamp = timestamp, object_value = v\<rparr>"
    using getState_upsert_insert[OF absent] shaped by (simp add: json_roundtrip_id)
qed


text \<open>The first write of scenario S1 into an empty store.\<close>

theorem upsertState_insert_verbatim_witness:
  "getState (Some empty_database) ''A'' ''device.A'' = None \<and> json_shaped fan_on_write
   \<and> getState (upsertState 5000 (Some empty_database) ''A'' ''device.A'' 1 1000 fan_on_write)
        ''A'' ''device.A''
       = Some \<lparr>object_key = ''device.A'', object_revision = 1,
                object_timestamp = 1000, object_value = fan_on_write\<rparr>
   \<and> map_option states
        (upsertState 5000 (Some empty_database) ''A'' ''device.A'' 1 1000 fan_on_write)
       = Some [\<lparr>row_serial = ''A'', row_object_key = ''device.A'',
                 row_object_revision = 1, row_object_timestamp = 1000,
                 row_value = fan_on_write, row_updatedAt = 5000\<rparr>]"
  using upsertState_insert_verbatim[of empty_database "''A''" "''device.A''" fan_on_write 5000 1 1000]
  by (simp add: getState_def empty_database_def fan_on_write_def)

text \<open>
  Claim C1, as stated, fails. The stored value has an active fan timer and the
  incoming value is not an explicit fan-off, so \<open>shouldPreserveFanTimer\<close> holds of
  them; yet the stored \<open>fan_timer_timeout\<close> after the upsert is the incoming 5, not
  the existing 9999999999: \<open>upsertState\<close> merges and never calls \<open>preserveFanTimer\<close>.
\<close>

theorem upsertState_overwrites_fan_timer:
  "map_option object_value (getState (Some fan_on_database) ''A'' ''device.A'')
     = Some (JObj [(''fan_timer_timeout'', JNum 9999999999), (''fan_control_state'', JBool True),
                   (''temperature'', JNum 20)])
   \<and> shouldPreserveFanTimer 1700000000000
        [(''fan_timer_timeout'', JNum 9999999999), (''fan_control_state'', JBool True),
         (''temperature'', JNum 20)]
        [(''fan_timer_timeout'', JNum 5), (''temperature'', JNum 21)]
   \<and> map_option object_value
        (getState (upsertState 1700000000000 (Some fan_on_database) ''A'' ''device.A'' 6 1100
                     stale_fan_write) ''A'' ''device.A'')
       = Some (JObj [(''fan_timer_timeout'', JNum 5), (''fan_control_state'', JBool True),
                     (''temperature'', JNum 21)])"
  by (simp add: getState_def upsertState_def fan_on_database_def fan_on_write_def
        stale_fan_write_def nullish_def set_prop_def own_prop_def has_prop_def read_prop_def
        shouldPreserveFanTimer_def isExplicitlyTurningOffFan_def)

text \<open>
  Claim C2, as stated, fails. An object stored at revision 5 and written with incoming
  revision 2 is stored at revision 2.
\<close>

theorem upsertState_revision_regresses:
  "map_option object_revision (getState (Some fan_on_database) ''A'' ''device.A'') = Some 5
   \<and> map_option object_revision
        (getState (upsertState 1700000000000 (Some fan_on_database) ''A'' ''device.A'' 2 1100
                     temperature_write) ''A'' ''device.A'')
       = Some 2"
  by (simp add: getState_def upsertState_def fan_on_database_def)

text \<open>
  Claim C2, amended. An upsert over an existing object records the incoming revision
  itself, whether or not the merge changed the value; the stored revision therefore
  does not decrease exactly when the incoming revision is at least the stored one.
\<close>

theorem upsertState_records_incoming_revision:
  "getState (Some db) serial objectKey = Some cur \<longrightarrow>
     (\<exists>new. getState (upsertState now (Some db) serial objectKey revision timestamp v)
               serial objectKey = Some new
        \<and> object_revision new = revision
        \<and> (object_revision cur \<le> object_revision new \<longleftrightarrow> object_revision cur \<le> revision))"
proof
  assume "getState (Some db) serial objectKey = Some cur"
  from getState_upsert_existing[OF this, of now revision timestamp v]
  show "\<exists>new. getState (upsertState now (Some db) serial objectKey revision timestamp v)
               serial objectKey = Some new
        \<and> object_revision new = revision
        \<and> (object_revision cur \<le> object_revision new \<longleftrightarrow> object_revision cur \<le> revision)"
    by simp
qed

text \<open>An object stored at revision 5 and written with revision 6.\<close>

theorem upsertState_records_incoming_revision_witness:
  "getState (Some fan_on_database) ''A'' ''device.A''
     = Some \<lparr>object_key = ''device.A'', object_revision = 5, object_timestamp = 1000,
              object_value = fan_on_write\<rparr>
   \<and> map_option object_revision
        (getState (upsertState 1700000000000 (Some fan_on_database) ''A'' ''device.A'' 6 1100
                     temperature_write) ''A'' ''device.A'') = Some 6"
proof -
  have h: "getState (Some fan_on_database) ''A'' ''device.A''
     = Some \<lparr>object_key = ''device.A'', object_revision = 5, object_timestamp = 1000,
              object_value = fan_on_write\<rparr>"
    by (simp add: getState_def fan_on_database_def)
  from upsertState_records_incoming_revision[of fan_on_database "''A''" "''device.A''" _
         1700000000000 6 1100 temperature_write] h
  show ?thesis by auto
qed

text \<open>
  Claim C1, amended. An upsert of a JSON-shaped mapping over a stored JSON-shaped
  mapping stores \<open>mergeValues\<close> of the two and nothing else, whether or not a fan
  timer is active: at every key other than \<open>__proto__\<close> the stored value reads as
  the merge of the stored and the incoming value at that key, so a field the incoming
  value omits keeps its stored value, and a field it sets to anything but a mapping
  takes the incoming value, the fan-timer fields included. In particular, once the
  first write of scenario S1 is in the store, the second leaves
  \<open>{fan_timer_timeout: 9999999999, fan_control_state: true, temperature: 21}\<close> at
  revision 2.
\<close>

theorem upsertState_stores_deep_merge:
  "(getState (Some db) serial objectKey = Some cur \<and> object_value cur = JObj c
      \<and> json_shaped (JObj c) \<and> json_shaped (JObj i)
     \<longrightarrow> (\<exists>r. map_option object_value
                 (getState (upsertState now (Some db) serial objectKey revision timestamp (JObj i))
                    serial objectKey) = Some (JObj r)
            \<and> mergeValues (JObj c) (JObj i) = JObj r
            \<and> (\<forall>key. key \<noteq> ''__proto__''
                  \<longrightarrow> own_prop r key = mergeValues (own_prop c key) (own_prop i key))
            \<and> (\<forall>key. \<not> has_prop i key \<longrightarrow> own_prop r key = own_prop c key)
            \<and> (\<forall>key. key \<noteq> ''__proto__'' \<and> has_prop i key \<and> \<not> isObject (own_prop i key)
                  \<longrightarrow> own_prop r key = own_prop i key)))
   \<and> map_option states
        (upsertState 1000 (Some empty_database) ''A'' ''device.A'' 1 1000 fan_on_write)
       = Some (states S1_settled)
   \<and> getState (upsertState now2 (Some S1_settled) ''A'' ''device.A'' 2 1100 temperature_write)
        ''A'' ''device.A''
       = Some \<lparr>object_key = ''device.A'', object_revision = 2, object_timestamp = 1100,
                object_value =
                  JObj [(''fan_timer_timeout'', JNum 9999999999),
                        (''fan_control_state'', JBool True), (''temperature'', JNum 21)]\<rparr>"
proof (intro conjI impI)
  assume h: "getState (Some db) serial objectKey = Some cur \<and> object_value cur = JObj c
      \<and> json_shaped (JObj c) \<and> json_shaped (JObj i)"
  obtain r where m: "mergeValues (JObj c) (JObj i) = JObj r" by simp
  have "json_shaped (mergeValues (JObj c) (JObj i))"
    using h by (intro json_shaped_mergeValues) simp_all
  from json_roundtrip_id[OF this]
  have rt: "json_roundtrip (mergeValues (JObj c) (JObj i)) = JObj r"
    by (simp only: m)
  have v: "map_option object_value
            (getState (upsertState now (Some db) serial objectKey revision timestamp (JObj i))
               serial objectKey) = Some (JObj r)"
    using h getState_upsert_existing[of db serial objectKey cur now revision timestamp "JObj i"] rt
    by (simp add: nullish_def del: mergeValues.simps)
  have defined: "\<forall>(k, v) \<in> set i. v \<noteq> JUndefined"
    using h by (auto simp: list_all_iff dest: json_shaped_not_undefined)
  have merged: "own_prop r key = mergeValues (own_prop c key) (own_prop i key)"
    if "key \<noteq> ''__proto__''" for key
    using mergeValues_objects_prop[OF defined _ m, of key] that by simp
  have kept: "own_prop r key = own_prop c key" if "\<not> has_prop i key" for key
    using mergeValues_objects_absent[OF that m] .
  have written: "own_prop r key = own_prop i key"
    if w: "key \<noteq> ''__proto__'' \<and> has_prop i key \<and> \<not> isObject (own_prop i key)" for key
  proof -
    from w obtain x where "map_of i key = Some x" "(key, x) \<in> set i"
      using has_prop_lookup by blast
    with defined have "own_prop i key \<noteq> JUndefined"
      by (auto simp: own_prop_def)
    then show ?thesis
      using w merged[of key] by (simp add: mergeValues_not_object)
  qed
  from v m merged kept written
  show "\<exists>r. map_option object_value
                 (getState (upsertState now (Some db) serial objectKey revision timestamp (JObj i))
                    serial objectKey) = Some (JObj r)
            \<and> mergeValues (JObj c) (JObj i) = JObj r
            \<and> (\<forall>key. key \<noteq> ''__proto__''
                  \<longrightarrow> own_prop r key = mergeValues (own_prop c key) (own_prop i key))
            \<and> (\<forall>key. \<not> has_prop i key \<longrightarrow> own_prop r key = own_prop c key)
            \<and> (\<forall>key. key \<noteq> ''__proto__'' \<and> has_prop i key \<and> \<not> isObject (own_prop i key)
                  \<longrightarrow> own_prop r key = own_prop i key)"
    by blast
next
  show "map_option states
        (upsertState 1000 (Some empty_database) ''A'' ''device.A'' 1 1000 fan_on_write)
       = Some (states S1_settled)"
    by (simp add: upsertState_def getState_def empty_database_def S1_settled_def fan_on_write_def)
next
  show "getState (upsertState now2 (Some S1_settled) ''A'' ''device.A'' 2 1100 temperature_write)
        ''A'' ''device.A''
       = Some \<lparr>object_key = ''device.A'', object_revision = 2, object_timestamp = 1100,
                object_value =
                  JObj [(''fan_timer_timeout'', JNum 9999999999),
                        (''fan_control_state'', JBool True), (''temperature'', JNum 21)]\<rparr>"
    by (simp add: getState_def upsertState_def S1_settled_def fan_on_write_def
          temperature_write_def nullish_def set_prop_def own_prop_def has_prop_def read_prop_def)
qed

text \<open>
  A write that sets \<open>fan_timer_timeout\<close> and omits \<open>fan_control_state\<close>, over a stored
  value with an active fan timer: the first is overwritten, the second kept.
\<close>

theorem upsertState_stores_deep_merge_witness:
  "map_option (\<lambda>obj. get_prop (object_value obj) ''fan_timer_timeout'')
        (getState (upsertState 1700000000000 (Some fan_on_database) ''A'' ''device.A'' 6 1100
                     stale_fan_write) ''A'' ''device.A'')
       = Some (JNum 5)
   \<and> map_option (\<lambda>obj. get_prop (object_value obj) ''fan_control_state'')
        (getState (upsertState 1700000000000 (Some fan_on_database) ''A'' ''device.A'' 6 1100
                     stale_fan_write) ''A'' ''device.A'')
       = Some (JBool True)"
proof -
  let ?c = "[(''fan_timer_timeout'', JNum 9999999999), (''fan_control_state'', JBool True),
             (''temperature'', JNum 20)]"
  let ?i = "[(''fan_timer_timeout'', JNum 5), (''temperature'', JNum 21)]"
  let ?cur = "\<lparr>object_key = ''device.A'', object_revision = 5, object_timestamp = 1000,
               object_value = fan_on_write\<rparr>"
  have h: "getState (Some fan_on_database) ''A'' ''device.A'' = Some ?cur
           \<and> object_value ?cur = JObj ?c \<and> json_shaped (JObj ?c) \<and> json_shaped (JObj ?i)"
    by (simp add: getState_def fan_on_database_def fan_on_write_def)
  have omitted: "\<not> has_prop ?i ''fan_control_state''"
    by (simp add: has_prop_def)
  have set_scalar: "''fan_timer_timeout'' \<noteq> ''__proto__'' \<and> has_prop ?i ''fan_timer_timeout''
                    \<and> \<not> isObject (own_prop ?i ''fan_timer_timeout'')"
    by (simp add: has_prop_def own_prop_def)
  have "\<exists>r. map_option object_value
                 (getState (upsertState 1700000000000 (Some fan_on_database) ''A'' ''device.A'' 6 1100
                    (JObj ?i)) ''A'' ''device.A'') = Some (JObj r)
            \<and> mergeValues (JObj ?c) (JObj ?i) = JObj r
            \<and> (\<forall>key. key \<noteq> ''__proto__''
                  \<longrightarrow> own_prop r key = mergeValues (own_prop ?c key) (own_prop ?i key))
            \<and> (\<forall>key. \<not> has_prop ?i key \<longrightarrow> own_prop r key = own_prop ?c key)
            \<and> (\<forall>key. key \<noteq> ''__proto__'' \<and> has_prop ?i key \<and> \<not> isObject (own_prop ?i key)
                  \<longrightarrow> own_prop r key = own_prop ?i key)"
    by (rule mp[OF conjunct1[OF upsertState_stores_deep_merge] h])
  then obtain r where r: "map_option object_value
                 (getState (upsertState 1700000000000 (Some fan_on_database) ''A'' ''device.A'' 6 1100
                    (JObj ?i)) ''A'' ''device.A'') = Some (JObj r)"
      and keep: "\<forall>key. \<not> has_prop ?i key \<longrightarrow> own_prop r key = own_prop ?c key"
      and over: "\<forall>key. key \<noteq> ''__proto__'' \<and> has_prop ?i key \<and> \<not> isObject (own_prop ?i key)
                   \<longrightarrow> own_prop r key = own_prop ?i key"
    by (elim exE conjE)
  from keep[rule_format, OF omitted]
  have k: "own_prop r ''fan_control_state'' = JBool True"
    by (simp add: own_prop_def)
  from over[rule_format, OF set_scalar]
  have o: "own_prop r ''fan_timer_timeout'' = JNum 5"
    by (simp add: own_prop_def)
  obtain obj where obj: "getState (upsertState 1700000000000 (Some fan_on_database) ''A''
                           ''device.A'' 6 1100 (JObj ?i)) ''A'' ''device.A'' = Some obj"
      and val: "object_value obj = JObj r"
    using r by (auto simp: map_option_case split: option.splits)
  show ?thesis
    unfolding stale_fan_write_def obj using val k o by simp
qed


section \<open>Watchdog liveness\<close>




section \<open>Watchdog constants\<close>

text \<open>
  Claim C8, as stated, fails: the plain watchdog variant declares a timeout of
  125000 ms and a sweep interval of 10000 ms, and its sweep at 125001 ms marks a device
  seen at 0 as unavailable.
\<close>

theorem plain_watchdog_constants:
  "plain_TIMEOUT_MS = 125000 \<and> plain_CHECK_INTERVAL_MS = 10000
   \<and> \<not> getAvailability (plain_checkDeviceTimeouts 125001 (markSeen 0 ''B'' new_watchdog)) ''B''"
  by (simp add: plain_TIMEOUT_MS_def plain_CHECK_INTERVAL_MS_def plain_checkDeviceTimeouts_def
        getAvailability_def fold_timeoutDevice_lookup markSeen_lookup keys_iff_lookup del: set_map)

text \<open>
  Claim C8, amended. The watchdog with a subscription manager has
  \<open>TIMEOUT_MS = 300000\<close> and \<open>CHECK_INTERVAL_MS = 30000\<close>: its sweep keeps a device
  seen at \<open>t0\<close> available exactly when the device has an active subscription or at most
  300000 ms have passed. The plain variant has 125000 and 10000, and its sweep keeps
  the device available exactly when at most 125000 ms have passed.
\<close>

theorem watchdog_constants:
  "TIMEOUT_MS = 300000 \<and> CHECK_INTERVAL_MS = 30000
   \<and> (getAvailability (checkDeviceTimeouts now sm (markSeen t0 s w)) s
        \<longleftrightarrow> is_active s sm \<or> now - t0 \<le> 300000)
   \<and> plain_TIMEOUT_MS = 125000 \<and> plain_CHECK_INTERVAL_MS = 10000
   \<and> (getAvailability (plain_checkDeviceTimeouts now (markSeen t0 s w)) s
        \<longleftrightarrow> now - t0 \<le> 125000)"
  by (auto simp: TIMEOUT_MS_def CHECK_INTERVAL_MS_def plain_TIMEOUT_MS_def
        plain_CHECK_INTERVAL_MS_def plain_checkDeviceTimeouts_def getAvailability_def
        sweep_lookup fold_timeoutDevice_lookup markSeen_lookup keys_iff_lookup simp del: set_map)


section \<open>API key permission check\<close>

text \<open>
  Claim C9. \<open>checkApiKeyPermission\<close> returns false whenever the serial list of the
  key's permissions is not empty and contains the requested serial.
\<close>

theorem checkApiKeyPermission_denies_listed_serial:
  "perm_serials permissions \<noteq> [] \<and> serial \<in> set (perm_serials permissions)
   \<longrightarrow> checkApiKeyPermission dbo userId serial requiredScopes permissions = Resolved False"
  by (simp add: checkApiKeyPermission_def split: option.splits)

text \<open>
  User U owns device A and the key has the scope asked for: a serial list holding A
  denies, while an empty list, or a list holding only another serial, grants.
\<close>

theorem checkApiKeyPermission_denies_listed_serial_witness:
  "checkApiKeyPermission (Some owner_database) ''U'' ''A'' [''read'']
     \<lparr>perm_serials = [''A''], perm_scopes = [''read'']\<rparr> = Resolved False
   \<and> checkApiKeyPermission (Some owner_database) ''U'' ''A'' [''read'']
     \<lparr>perm_serials = [], perm_scopes = [''read'']\<rparr> = Resolved True
   \<and> checkApiKeyPermission (Some owner_database) ''U'' ''A'' [''read'']
     \<lparr>perm_serials = [''B''], perm_scopes = [''read'']\<rparr> = Resolved True"
  using checkApiKeyPermission_denies_listed_serial[of "\<lparr>perm_serials = [''A''], perm_scopes = [''read'']\<rparr>"
          "''A''" "Some owner_database" "''U''" "[''read'']"]
  by (simp add: checkApiKeyPermission_def getDeviceOwner_def owner_database_def)


section \<open>Away reconciliation\<close>

text \<open>
  Claim C5, at scenario S6. Both devices of user U report \<open>away = true\<close> and device B
  reports \<open>vacation_mode = true\<close> and the larger \<open>away_timestamp\<close> 200, yet after
  \<open>updateUserAwayStatus\<close> the \<open>user.U\<close> object of each device has \<open>away = false\<close>,
  \<open>vacation_mode = false\<close> and no \<open>away_timestamp\<close>, at revision 1.
\<close>

theorem updateUserAwayStatus_S6:
  "getState (Some S6_database) ''A'' ''device.A''
     = Some \<lparr>object_key = ''device.A'', object_revision = 4, object_timestamp = 100,
              object_value = JObj [(''away'', JBool True), (''away_timestamp'', JNum 100)]\<rparr>
   \<and> getState (Some S6_database) ''B'' ''device.B''
     = Some \<lparr>object_key = ''device.B'', object_revision = 7, object_timestamp = 200,
              object_value = JObj [(''away'', JBool True), (''away_timestamp'', JNum 200),
                                   (''vacation_mode'', JBool True)]\<rparr>
   \<and> getState (updateUserAwayStatus 5000 (Some S6_database) ''U'') ''A'' ''user.U''
       = Some \<lparr>object_key = ''user.U'', object_revision = 1, object_timestamp = 5000,
                object_value = JObj [(''name'', JStr ''home''), (''away'', JBool False),
                                     (''vacation_mode'', JBool False)]\<rparr>
   \<and> getState (updateUserAwayStatus 5000 (Some S6_database) ''U'') ''B'' ''user.U''
       = Some \<lparr>object_key = ''user.U'', object_revision = 1, object_timestamp = 5000,
                object_value = JObj [(''name'', JStr ''home''), (''away'', JBool False),
                                     (''vacation_mode'', JBool False)]\<rparr>"
proof -
  let ?devs = "[\<lparr>owner_userId = ''U'', owner_serial = ''A'', owner_createdAt = 1\<rparr>,
                \<lparr>owner_userId = ''U'', owner_serial = ''B'', owner_createdAt = 2\<rparr>]"
  let ?w = "JObj [(''away'', JBool False), (''vacation_mode'', JBool False)]"
  let ?dbA = "upsertState 5000 (Some S6_database) ''A'' ''user.U'' 1 5000 ?w"
  let ?dbB = "upsertState 5000 ?dbA ''B'' ''user.U'' 1 5000 ?w"
  have serials: "\<forall>d \<in> set ?devs. owner_serial d \<noteq> ''value''" by simp
  have scan: "scanOwnedDevices (Some S6_database) ?devs initial_scan = initial_scan"
    using serials by (rule scanOwnedDevices_unreported)
  have "updateUserAwayStatus 5000 (Some S6_database) ''U''
          = writeUserState 5000 ''U'' initial_scan False ?devs (Some S6_database)"
    using scan S6_owned
    by (simp add: updateUserAwayStatus_def stripUserPrefix_def initial_scan_def Let_def
          del: writeUserState.simps scanOwnedDevices.simps)
  also have "\<dots> = fold (\<lambda>d dbo'. upsertState 5000 dbo' (owner_serial d) (''user.'' @ ''U'') 1 5000 ?w)
                     ?devs (Some S6_database)"
    using serials by (rule writeUserState_unreported)
  also have "\<dots> = ?dbB"
    by simp
  finally have run: "updateUserAwayStatus 5000 (Some S6_database) ''U'' = ?dbB" .
  have curA: "getState (Some S6_database) ''A'' ''user.U''
                = Some \<lparr>object_key = ''user.U'', object_revision = 3, object_timestamp = 50,
                         object_value = JObj [(''name'', JStr ''home'')]\<rparr>"
    by (simp add: getState_def S6_database_def)
  have curB: "getState (Some S6_database) ''B'' ''user.U''
                = Some \<lparr>object_key = ''user.U'', object_revision = 3, object_timestamp = 50,
                         object_value = JObj [(''name'', JStr ''home'')]\<rparr>"
    by (simp add: getState_def S6_database_def)
  have merged: "json_roundtrip (mergeValues (nullish (JObj [(''name'', JStr ''home'')]) (JObj []))
                                  (nullish ?w (JObj [])))
                  = JObj [(''name'', JStr ''home''), (''away'', JBool False),
                          (''vacation_mode'', JBool False)]"
    by (simp add: nullish_def set_prop_def own_prop_def has_prop_def read_prop_def
          object_prototype_methods_def)
  have A1: "getState ?dbA ''A'' ''user.U''
              = Some \<lparr>object_key = ''user.U'', object_revision = 1, object_timestamp = 5000,
                object_value = JObj [(''name'', JStr ''home''), (''away'', JBool False),
                                     (''vacation_mode'', JBool False)]\<rparr>"
    using getState_upsert_existing_opt[OF curA, of 5000 1 5000 ?w] merged by simp
  have A2: "getState ?dbB ''A'' ''user.U'' = getState ?dbA ''A'' ''user.U''"
    by (rule getState_upsert_frame) simp
  have B0: "getState ?dbA ''B'' ''user.U'' = getState (Some S6_database) ''B'' ''user.U''"
    by (rule getState_upsert_frame) simp
  have B1: "getState ?dbB ''B'' ''user.U''
              = Some \<lparr>object_key = ''user.U'', object_revision = 1, object_timestamp = 5000,
                object_value = JObj [(''name'', JStr ''home''), (''away'', JBool False),
                                     (''vacation_mode'', JBool False)]\<rparr>"
    using getState_upsert_existing_opt[OF B0[unfolded curB], of 5000 1 5000 ?w] merged by simp
  have dA: "getState (Some S6_database) ''A'' ''device.A''
     = Some \<lparr>object_key = ''device.A'', object_revision = 4, object_timestamp = 100,
              object_value = JObj [(''away'', JBool True), (''away_timestamp'', JNum 100)]\<rparr>"
    by (simp add: getState_def S6_database_def)
  have dB: "getState (Some S6_database) ''B'' ''device.B''
     = Some \<lparr>object_key = ''device.B'', object_revision = 7, object_timestamp = 200,
              object_value = JObj [(''away'', JBool True), (''away_timestamp'', JNum 200),
                                   (''vacation_mode'', JBool True)]\<rparr>"
    by (simp add: getState_def S6_database_def)
  show ?thesis
    unfolding run using dA dB A1 A2 B1 by simp
qed


section \<open>MQTT command authorization\<close>

text \<open>
  Claim C6. A derived command on the topic \<open>prefix/serial/ha/command/set\<close>, and a
  raw command whose topic \<open>parseCommandTopic\<close> resolves to a serial, is ignored when
  that serial is not among the integration's device serials: the handler makes no
  upsert call, and the store is left as it was.
\<close>

theorem handleCommand_ignores_foreign_serial:
  "(CHR ''/'' \<notin> set serial \<and> serial \<notin> set (userDeviceSerials m)
      \<longrightarrow> handleCommand h now m dbo
            (topicPrefix m @ ''/'' @ serial @ ''/ha/'' @ command @ ''/set'') message = []
        \<and> perform_upserts
            (handleCommand h now m dbo
               (topicPrefix m @ ''/'' @ serial @ ''/ha/'' @ command @ ''/set'') message) dbo = dbo)
   \<and> (\<not> (str_includes topic ''/ha/'' \<and> endsWith topic ''/set'')
        \<and> parseCommandTopic h topic (topicPrefix m) = Some (serial, objectType, field)
        \<and> serial \<notin> set (userDeviceSerials m)
      \<longrightarrow> handleCommand h now m dbo topic message = []
        \<and> perform_upserts (handleCommand h now m dbo topic message) dbo = dbo)"
proof (intro conjI impI)
  assume a: "CHR ''/'' \<notin> set serial \<and> serial \<notin> set (userDeviceSerials m)"
  let ?topic = "topicPrefix m @ ''/'' @ serial @ ''/ha/'' @ command @ ''/set''"
  have inc: "str_includes ?topic ''/ha/''"
    using includes_append[of "topicPrefix m @ ''/'' @ serial" "''/ha/''" "command @ ''/set''"]
    by simp
  have ends: "endsWith ?topic ''/set''"
    using endsWith_append[of "topicPrefix m @ ''/'' @ serial @ ''/ha/'' @ command" "''/set''"]
    by simp
  have "handleHomeAssistantCommand h now m dbo ?topic message = []"
    using a matchHaTopic_shape[of serial "topicPrefix m" command]
    by (simp add: handleHomeAssistantCommand_def Let_def)
  then show r: "handleCommand h now m dbo ?topic message = []"
    using inc ends by (simp add: handleCommand_def Let_def)
  show "perform_upserts (handleCommand h now m dbo ?topic message) dbo = dbo"
    unfolding r by (simp add: perform_upserts_def)
next
  assume b: "\<not> (str_includes topic ''/ha/'' \<and> endsWith topic ''/set'')
        \<and> parseCommandTopic h topic (topicPrefix m) = Some (serial, objectType, field)
        \<and> serial \<notin> set (userDeviceSerials m)"
  then show r: "handleCommand h now m dbo topic message = []"
    by (auto simp: handleCommand_def Let_def)
  show "perform_upserts (handleCommand h now m dbo topic message) dbo = dbo"
    unfolding r by (simp add: perform_upserts_def)
qed

text \<open>
  Commands for the foreign device X are dropped on both paths, although X has the
  objects a command needs; the same derived command for the user's device C writes
  \<open>shared.C\<close>.
\<close>

theorem handleCommand_ignores_foreign_serial_witness:
  "handleCommand S5_helpers 2000 S5_integration (Some S5_database) ''nest/X/ha/mode/set'' ''heat''
     = []
   \<and> handleCommand S5_helpers 2000 S5_integration (Some S5_database) ''nest/X/device/away/set''
       ''true'' = []
   \<and> handleCommand S5_helpers 2000 S5_integration (Some S5_database) ''nest/C/ha/mode/set'' ''heat''
     = [Upsert ''C'' ''shared.C'' 5 2000 (JObj [(''target_temperature_type'', JStr ''heat'')])]"
proof -
  have raw: "\<not> (str_includes ''nest/X/device/away/set'' ''/ha/''
               \<and> endsWith ''nest/X/device/away/set'' ''/set'')"
    by (simp add: startsWith_def)
  have foreign: "''X'' \<notin> set (userDeviceSerials S5_integration)"
    by (simp add: S5_integration_def)
  have parsed: "parseCommandTopic S5_helpers ''nest/X/device/away/set'' (topicPrefix S5_integration)
                  = Some (''X'', ''device'', ''away'')"
    by (simp add: S5_helpers_def)
  have pre: "topicPrefix S5_integration = ''nest''"
    by (simp add: S5_integration_def)
  note inst = handleCommand_ignores_foreign_serial[where serial = "''X''" and m = S5_integration
      and h = S5_helpers and now = 2000 and dbo = "Some S5_database" and command = "''mode''"
      and message = "''heat''"]
  have ha: "handleCommand S5_helpers 2000 S5_integration (Some S5_database)
              ''nest/X/ha/mode/set'' ''heat'' = []"
    using inst[of "''nest/X/device/away/set''" "''device''" "''away''"] foreign
    by (simp add: pre)
  note inst2 = handleCommand_ignores_foreign_serial[where serial = "''X''" and m = S5_integration
      and h = S5_helpers and now = 2000 and dbo = "Some S5_database"
      and topic = "''nest/X/device/away/set''" and objectType = "''device''" and field = "''away''"
      and message = "''true''"]
  have rawc: "handleCommand S5_helpers 2000 S5_integration (Some S5_database)
              ''nest/X/device/away/set'' ''true'' = []"
    using inst2 raw foreign parsed by blast
  have m: "matchHaTopic ''nest'' ''nest/C/ha/mode/set'' = Some (''C'', ''mode'')"
    using matchHaTopic_shape[of "''C''" "''nest''" "''mode''"]
    by (simp add: line_terminator_def)
  have own: "handleCommand S5_helpers 2000 S5_integration (Some S5_database)
               ''nest/C/ha/mode/set'' ''heat''
     = [Upsert ''C'' ''shared.C'' 5 2000 (JObj [(''target_temperature_type'', JStr ''heat'')])]"
    by (simp add: handleCommand_def handleHomeAssistantCommand_def Let_def pre m startsWith_def
          endsWith_def S5_integration_def getState_def S5_database_def haCommand_def
          updateSharedValue_def S5_helpers_def js_trim_def is_space_def set_prop_def)
  from ha rawc own show ?thesis by simp
qed


end
